(* ===== verification/Prelude.thy ===== *)
theory Prelude
  imports Main "HOL-Library.Sublist" "HOL-Library.Multiset"
    "HOL-Library.List_Lexorder" "HOL-Library.Char_ord"
begin

text \<open>
  Shared vocabulary of the development. The blog's sources are TypeScript/React; the
  operations they call on the ECMAScript runtime are modelled here once, so that every
  component theory uses the same reading of them:
  \<^item> \<open>String.prototype.toLowerCase\<close> and \<open>String.prototype.includes\<close> (the search
    filter, \<open>src/components/search.tsx\<close>);
  \<^item> JavaScript numbers under \<open>+\<close>, \<open>-\<close> and \<open>%\<close>, including \<open>NaN\<close> (the
    search cursor);
  \<^item> reading an array at a number index, which gives \<open>undefined\<close> out of range;
  \<^item> \<open>decodeURIComponent\<close>, which throws \<open>URIError\<close> on a malformed escape, and
    \<open>encodeURIComponent\<close> (the post route, \<open>src/app/posts/[slug]/page.tsx\<close>).
  Strings are \<open>char list\<close>, one \<open>char\<close> per byte of the UTF-8 encoding; the
  case mapping is the ASCII part of \<open>toLowerCase\<close>.
  The collection \<open>js_simps\<close> holds the evaluation rules the component proofs use.
\<close>

named_theorems js_simps "evaluation rules of the modelled ECMAScript builtins"

type_synonym url = string

section \<open>Strings\<close>

definition js_lower_char :: "char \<Rightarrow> char" where
  "js_lower_char c =
     (if CHR ''A'' \<le> c \<and> c \<le> CHR ''Z'' then char_of (of_char c + (32::nat)) else c)"

definition js_lower :: "string \<Rightarrow> string" where
  "js_lower s = map js_lower_char s"

text \<open>\<open>hay.includes(needle)\<close>: the needle occurs as a contiguous part of the haystack.\<close>

fun js_includes :: "'a list \<Rightarrow> 'a list \<Rightarrow> bool" where
  "js_includes [] needle = (needle = [])"
| "js_includes (h # t) needle = (prefix needle (h # t) \<or> js_includes t needle)"

section \<open>Numbers\<close>

text \<open>
  A JavaScript number as the search cursor uses it: an integer value or \<open>NaN\<close>.
  The cursor only ever holds small integers, which doubles represent exactly, so
  \<open>int\<close> is faithful for them. \<open>%\<close> is the truncating remainder: its result has the
  sign of the dividend, and a zero divisor gives \<open>NaN\<close>.
\<close>

datatype js_num = Num int | NaN

fun js_add :: "js_num \<Rightarrow> js_num \<Rightarrow> js_num" where
  "js_add (Num a) (Num b) = Num (a + b)"
| "js_add _ _ = NaN"

fun js_sub :: "js_num \<Rightarrow> js_num \<Rightarrow> js_num" where
  "js_sub (Num a) (Num b) = Num (a - b)"
| "js_sub _ _ = NaN"

fun js_mod :: "js_num \<Rightarrow> js_num \<Rightarrow> js_num" where
  "js_mod (Num a) (Num b) = (if b = 0 then NaN else Num (sgn a * (\<bar>a\<bar> mod \<bar>b\<bar>)))"
| "js_mod _ _ = NaN"

text \<open>\<open>xs[i]\<close>: \<open>undefined\<close> (here \<open>None\<close>) unless \<open>i\<close> is an index of the array.\<close>

fun js_index :: "'a list \<Rightarrow> js_num \<Rightarrow> 'a option" where
  "js_index xs (Num i) = (if 0 \<le> i \<and> i < int (length xs) then Some (xs ! nat i) else None)"
| "js_index xs NaN = None"

section \<open>URI components\<close>

definition hex_val :: "char \<Rightarrow> nat option" where
  "hex_val c =
     (let n = of_char c :: nat in
      if 48 \<le> n \<and> n \<le> 57 then Some (n - 48)
      else if 65 \<le> n \<and> n \<le> 70 then Some (n - 55)
      else if 97 \<le> n \<and> n \<le> 102 then Some (n - 87)
      else None)"

definition hex_char :: "nat \<Rightarrow> char" where
  "hex_char n = char_of (if n < 10 then 48 + n else 55 + n)"

text \<open>
  \<open>decodeURIComponent\<close>: every \<open>%XY\<close> escape becomes the byte \<open>0xXY\<close>; a \<open>%\<close>
  not followed by two hexadecimal digits throws \<open>URIError\<close> (\<open>None\<close>). The check that
  escaped bytes above \<open>0x7F\<close> form valid UTF-8 is not modelled: such bytes are kept.
\<close>

fun decode_uri_component :: "string \<Rightarrow> string option" where
  "decode_uri_component [] = Some []"
| "decode_uri_component (c # cs) =
     (if c = CHR ''%'' then
        (case cs of
          h1 # h2 # rest \<Rightarrow>
            (case (hex_val h1, hex_val h2) of
              (Some a, Some b) \<Rightarrow> map_option ((#) (char_of (16 * a + b))) (decode_uri_component rest)
            | _ \<Rightarrow> None)
        | _ \<Rightarrow> None)
      else map_option ((#) c) (decode_uri_component cs))"

text \<open>\<open>encodeURIComponent\<close> keeps \<open>A-Z a-z 0-9 - _ . ! ~ * ' ( )\<close> and escapes every other byte.\<close>

definition uri_unreserved :: "char \<Rightarrow> bool" where
  "uri_unreserved c =
     (let n = of_char c :: nat in
      (65 \<le> n \<and> n \<le> 90) \<or> (97 \<le> n \<and> n \<le> 122) \<or> (48 \<le> n \<and> n \<le> 57) \<or>
      n \<in> {45, 95, 46, 33, 126, 42, 39, 40, 41})"

definition encode_uri_char :: "char \<Rightarrow> string" where
  "encode_uri_char c =
     (if uri_unreserved c then [c]
      else [CHR ''%'', hex_char (of_char c div 16), hex_char (of_char c mod 16)])"

definition encode_uri_component :: "string \<Rightarrow> string" where
  "encode_uri_component s = concat (map encode_uri_char s)"

section \<open>Lemmas on the builtins\<close>

lemma js_includes_sublist [js_simps]: "js_includes hay needle \<longleftrightarrow> sublist needle hay"
  by (induction hay) (auto simp: sublist_Cons_right)

lemma js_includes_Nil [js_simps]: "js_includes hay []"
  by (simp add: js_includes_sublist)

lemma length_js_lower [simp]: "length (js_lower s) = length s"
  by (simp add: js_lower_def)

lemma js_lower_idem [simp]: "js_lower (js_lower s) = js_lower s"
proof -
  have "js_lower_char (js_lower_char c) = js_lower_char c" for c
    by (auto simp: js_lower_char_def less_eq_char_def)
  then show ?thesis by (simp add: js_lower_def)
qed

lemma js_index_Some [js_simps]:
  "js_index xs i = Some x \<longleftrightarrow> (\<exists>k. i = Num (int k) \<and> k < length xs \<and> x = xs ! k)"
  by (cases i) (auto simp: nat_less_iff intro!: exI [of _ "nat _"])

lemma js_mod_range [js_simps]:
  assumes "0 \<le> a" and "0 < n"
  shows "js_mod (Num a) (Num n) = Num (a mod n) \<and> 0 \<le> a mod n \<and> a mod n < n"
proof (cases "a = 0")
  case True
  then show ?thesis using assms by simp
next
  case False
  with assms have "sgn a = 1" by simp
  with assms show ?thesis by simp
qed

lemma hex_val_hex_char [js_simps]: "n < 16 \<Longrightarrow> hex_val (hex_char n) = Some n"
  by (simp add: hex_val_def hex_char_def Let_def)

lemma uri_unreserved_not_percent: "uri_unreserved c \<Longrightarrow> c \<noteq> CHR ''%''"
  by (auto simp: uri_unreserved_def)

text \<open>Decoding the escape \<open>%XY\<close> of a byte gives the byte back.\<close>

lemma decode_percent_escape:
  "decode_uri_component (CHR ''%'' # hex_char (of_char c div 16) # hex_char (of_char c mod 16) # rest) =
   map_option ((#) c) (decode_uri_component rest)"
proof -
  have lo: "of_char c mod 16 < (16::nat)" by simp
  have hi: "of_char c div 16 < (16::nat)"
    using nat_of_char_less_256 [of c] by (simp add: less_mult_imp_div_less)
  have "char_of (16 * (of_char c div 16) + of_char c mod 16 :: nat) = c"
    by simp
  with lo hi show ?thesis by (simp add: hex_val_hex_char)
qed

lemma decode_encode_uri_char:
  "decode_uri_component (encode_uri_char c @ rest) = map_option ((#) c) (decode_uri_component rest)"
proof (cases "uri_unreserved c")
  case True
  then show ?thesis by (simp add: encode_uri_char_def uri_unreserved_not_percent)
next
  case False
  then show ?thesis by (simp add: encode_uri_char_def decode_percent_escape del: decode_uri_component.simps)
qed

text \<open>Round trip: decoding an encoded component gives the component back.\<close>

lemma decode_encode_uri_component [js_simps]:
  "decode_uri_component (encode_uri_component s) = Some s"
  by (induction s) (simp_all add: encode_uri_component_def decode_encode_uri_char)

end
