(* ===== verification/Search.thy ===== *)
theory Search
  imports Prelude
begin

text \<open>
  The search widget of \<open>src/components/search.tsx\<close> (\<open>SearchBar\<close>): a pure filter
  over a snapshot of post summaries and a small state machine over three React state
  variables (\<open>isOpen\<close>, \<open>query\<close>, \<open>selectedIndex\<close>). Each event handler of the
  component is one definition; \<open>search_step\<close> wires them to the DOM events the way
  the JSX does, \<open>search_view\<close> is what the component renders. The cursor is a
  JavaScript number (\<open>js_num\<close>), so \<open>(prev + 1) % 0\<close> is \<open>NaN\<close> as in the browser,
  and reading the results at the cursor can give \<open>undefined\<close>, which the \<open>Enter\<close>
  handler dereferences (\<open>TypeError\<close>).
\<close>

section \<open>Data\<close>

record search_post =
  sp_slug :: string
  sp_title :: string
  sp_excerpt :: string
  sp_date :: string
  sp_tags :: "string list"

record search_state =
  is_open :: bool
  query :: string
  selected_index :: js_num

definition search_init :: search_state where
  "search_init = \<lparr>is_open = False, query = [], selected_index = Num 0\<rparr>"

text \<open>The fields of a \<open>KeyboardEvent\<close> the handlers read.\<close>

record kbd =
  ev_key :: string
  ev_meta :: bool
  ev_ctrl :: bool

datatype search_error = TypeError

section \<open>The filter\<close>

definition post_matches :: "string \<Rightarrow> search_post \<Rightarrow> bool" where
  "post_matches q post =
     (js_includes (js_lower (sp_title post)) (js_lower q) \<or>
      js_includes (js_lower (sp_excerpt post)) (js_lower q) \<or>
      list_ex (\<lambda>tag. js_includes (js_lower tag) (js_lower q)) (sp_tags post))"

definition filtered_posts :: "search_post list \<Rightarrow> string \<Rightarrow> search_post list" where
  "filtered_posts posts q = filter (post_matches q) posts"

section \<open>Handlers\<close>

text \<open>The \<open>keydown\<close> listener the first effect registers on \<open>window\<close>.\<close>

definition global_keydown :: "kbd \<Rightarrow> search_state \<Rightarrow> search_state" where
  "global_keydown e s =
     (let s1 = (if (ev_meta e \<or> ev_ctrl e) \<and> ev_key e = ''k'' then s\<lparr>is_open := True\<rparr> else s)
      in if ev_key e = ''Escape'' then s1\<lparr>is_open := False\<rparr> else s1)"

text \<open>
  \<open>onChange\<close> of the input sets the query; the effect on \<open>[query]\<close> then resets the
  cursor. React skips both when the new value equals the old one.
\<close>

definition input_change :: "string \<Rightarrow> search_state \<Rightarrow> search_state" where
  "input_change v s = (if v = query s then s else s\<lparr>query := v, selected_index := Num 0\<rparr>)"

text \<open>\<open>onKeyDown\<close> of the input; the result is the new state and the navigation target.\<close>

definition input_keydown ::
  "search_post list \<Rightarrow> kbd \<Rightarrow> search_state \<Rightarrow> search_error + (search_state \<times> url option)" where
  "input_keydown posts e s =
     (let fp = filtered_posts posts (query s); n = Num (int (length fp)) in
      if ev_key e = ''ArrowDown'' then
        Inr (s\<lparr>selected_index := js_mod (js_add (selected_index s) (Num 1)) n\<rparr>, None)
      else if ev_key e = ''ArrowUp'' then
        Inr (s\<lparr>selected_index := js_mod (js_add (js_sub (selected_index s) (Num 1)) n) n\<rparr>, None)
      else if ev_key e = ''Enter'' \<and> 0 < length fp then
        (case js_index fp (selected_index s) of
          None \<Rightarrow> Inl TypeError
        | Some p \<Rightarrow> Inr (s, Some (''/posts/'' @ sp_slug p)))
      else Inr (s, None))"

section \<open>Events and the step function\<close>

text \<open>
  The DOM events the component reacts to. A key pressed in the search input runs the
  input's handler and then, as the event bubbles, the window listener. Elements exist
  only in the branch that renders them: the open button when closed, the dialog when
  open; an event on an element that is not rendered cannot occur and changes nothing.
\<close>

datatype search_event =
    WindowKey kbd
  | InputKey kbd
  | InputChange string
  | ClickOpenButton
  | ClickBackdrop
  | ClickCloseButton
  | ClickResult nat

fun search_step ::
  "search_post list \<Rightarrow> search_state \<Rightarrow> search_event \<Rightarrow> search_error + (search_state \<times> url option)"
where
  "search_step posts s (WindowKey e) = Inr (global_keydown e s, None)"
| "search_step posts s (InputKey e) =
     (if \<not> is_open s then Inr (s, None)
      else (case input_keydown posts e s of
              Inl err \<Rightarrow> Inl err
            | Inr (s', nav) \<Rightarrow> Inr (global_keydown e s', nav)))"
| "search_step posts s (InputChange v) =
     (if is_open s then Inr (input_change v s, None) else Inr (s, None))"
| "search_step posts s ClickOpenButton =
     (if is_open s then Inr (s, None) else Inr (s\<lparr>is_open := True\<rparr>, None))"
| "search_step posts s ClickBackdrop = Inr (s\<lparr>is_open := False\<rparr>, None)"
| "search_step posts s ClickCloseButton = Inr (s\<lparr>is_open := False\<rparr>, None)"
| "search_step posts s (ClickResult i) =
     (let fp = filtered_posts posts (query s) in
      if is_open s \<and> i < length fp
      then Inr (s\<lparr>is_open := False\<rparr>, Some (''/posts/'' @ sp_slug (fp ! i)))
      else Inr (s, None))"

text \<open>
  The effect on \<open>[isOpen]\<close>: it runs after a render in which \<open>isOpen\<close> changed and
  focuses the input when the dialog is open (the input exists only then). The result is
  whether the step from \<open>s\<close> to \<open>s'\<close> moves the focus to the input.
\<close>

definition focus_input :: "search_state \<Rightarrow> search_state \<Rightarrow> bool" where
  "focus_input s s' \<longleftrightarrow> is_open s' \<noteq> is_open s \<and> is_open s'"

text \<open>A sequence of events; the navigations are collected in order, an error stops the run.\<close>

fun search_run ::
  "search_post list \<Rightarrow> search_state \<Rightarrow> search_event list \<Rightarrow> search_error + (search_state \<times> url list)"
where
  "search_run posts s [] = Inr (s, [])"
| "search_run posts s (e # es) =
     (case search_step posts s e of
        Inl err \<Rightarrow> Inl err
      | Inr (s', nav) \<Rightarrow>
          (case search_run posts s' es of
             Inl err \<Rightarrow> Inl err
           | Inr (s'', navs) \<Rightarrow> Inr (s'', (case nav of None \<Rightarrow> navs | Some u \<Rightarrow> u # navs))))"

inductive search_reachable :: "search_post list \<Rightarrow> search_state \<Rightarrow> bool" for posts where
  init: "search_reachable posts search_init"
| step: "search_reachable posts s \<Longrightarrow> search_step posts s e = Inr (s', nav) \<Longrightarrow>
         search_reachable posts s'"

text \<open>A key pressed without modifiers.\<close>

abbreviation plain_key :: "string \<Rightarrow> kbd" where
  "plain_key k \<equiv> \<lparr>ev_key = k, ev_meta = False, ev_ctrl = False\<rparr>"

section \<open>Rendering\<close>

record search_item =
  item_key :: string
  item_href :: url
  item_title :: string
  item_excerpt :: string
  item_date :: string
  item_tags :: "string list"
  item_highlighted :: bool

datatype search_view =
    SearchButton
  | SearchDialog string "search_item list"

definition search_item_of :: "js_num \<Rightarrow> nat \<Rightarrow> search_post \<Rightarrow> search_item" where
  "search_item_of sel i p =
     \<lparr>item_key = sp_slug p, item_href = ''/posts/'' @ sp_slug p, item_title = sp_title p, item_excerpt = sp_excerpt p,
      item_date = sp_date p, item_tags = take 3 (sp_tags p), item_highlighted = (Num (int i) = sel)\<rparr>"

definition search_view :: "search_post list \<Rightarrow> search_state \<Rightarrow> search_view" where
  "search_view posts s =
     (if \<not> is_open s then SearchButton
      else SearchDialog (query s)
             (map (\<lambda>(i, p). search_item_of (selected_index s) i p)
                  (enumerate 0 (filtered_posts posts (query s)))))"

section \<open>The cursor invariant\<close>

fun cursor_in :: "nat \<Rightarrow> js_num \<Rightarrow> bool" where
  "cursor_in n (Num i) = (0 \<le> i \<and> i < int n)"
| "cursor_in n NaN = False"

definition cursor_ok :: "search_post list \<Rightarrow> search_state \<Rightarrow> bool" where
  "cursor_ok posts s =
     (let n = length (filtered_posts posts (query s)) in n = 0 \<or> cursor_in n (selected_index s))"


section \<open>Lemmas\<close>

lemma global_keydown_fields [simp]:
  "query (global_keydown e s) = query s"
  "selected_index (global_keydown e s) = selected_index s"
  by (simp_all add: global_keydown_def Let_def)

lemma cursor_in_down:
  "0 < n \<Longrightarrow> cursor_in n i \<Longrightarrow> cursor_in n (js_mod (js_add i (Num 1)) (Num (int n)))"
  by (cases i) (simp_all add: js_mod_range)

lemma cursor_in_up:
  "0 < n \<Longrightarrow> cursor_in n i \<Longrightarrow>
   cursor_in n (js_mod (js_add (js_sub i (Num 1)) (Num (int n))) (Num (int n)))"
proof (cases i)
  case (Num k)
  assume "0 < n" and "cursor_in n i"
  with Num have "0 \<le> k - 1 + int n" by simp
  from js_mod_range [OF this] \<open>0 < n\<close> Num show ?thesis by simp
qed simp

lemma cursor_in_js_index: "cursor_in (length xs) i \<Longrightarrow> \<exists>x. js_index xs i = Some x"
  by (cases i) auto

lemma cursor_in_Num: "cursor_in n i \<Longrightarrow> \<exists>k. i = Num (int k) \<and> k < n"
  by (cases i) (auto intro: exI [of _ "nat _"])

lemma input_keydown_Inr:
  "input_keydown posts e s = Inr (s', nav) \<Longrightarrow> query s' = query s \<and> is_open s' = is_open s"
  by (auto simp: input_keydown_def Let_def split: if_splits option.splits)

lemma input_keydown_cursor_ok:
  assumes "cursor_ok posts s" and "input_keydown posts e s = Inr (s', nav)"
  shows "cursor_ok posts s'"
proof -
  let ?n = "length (filtered_posts posts (query s))"
  let ?i = "selected_index s"
  have q: "query s' = query s" using input_keydown_Inr [OF assms(2)] by simp
  show ?thesis
  proof (cases "?n = 0")
    case True
    with q show ?thesis by (simp add: cursor_ok_def)
  next
    case False
    with assms(1) have c: "cursor_in ?n ?i" by (simp add: cursor_ok_def)
    from assms(2) have "selected_index s' = ?i \<or>
        selected_index s' = js_mod (js_add ?i (Num 1)) (Num (int ?n)) \<or>
        selected_index s' = js_mod (js_add (js_sub ?i (Num 1)) (Num (int ?n))) (Num (int ?n))"
      by (auto simp: input_keydown_def Let_def split: if_splits option.splits)
    then have "cursor_in ?n (selected_index s')"
      using c False cursor_in_down [of ?n ?i] cursor_in_up [of ?n ?i] by auto
    with q show ?thesis by (simp add: cursor_ok_def)
  qed
qed

lemma search_step_cursor_ok:
  "cursor_ok posts s \<Longrightarrow> search_step posts s e = Inr (s', nav) \<Longrightarrow> cursor_ok posts s'"
proof (cases e)
  case (InputKey k)
  assume ok: "cursor_ok posts s" and st: "search_step posts s e = Inr (s', nav)"
  show ?thesis
  proof (cases "is_open s")
    case True
    with st InputKey obtain s1 where k: "input_keydown posts k s = Inr (s1, nav)"
      and s': "s' = global_keydown k s1"
      by (auto split: sum.splits)
    from input_keydown_cursor_ok [OF ok k] s' show ?thesis
      by (simp add: cursor_ok_def)
  next
    case False
    with st InputKey ok show ?thesis by simp
  qed
qed (auto simp: cursor_ok_def input_change_def Let_def split: if_splits)

text \<open>The cursor invariant holds initially and every step preserves it.\<close>

lemma reachable_cursor_ok: "search_reachable posts s \<Longrightarrow> cursor_ok posts s"
proof (induction rule: search_reachable.induct)
  case init
  show ?case by (simp add: cursor_ok_def search_init_def)
next
  case (step s e s' nav)
  from step.IH step.hyps(2) show ?case by (rule search_step_cursor_ok)
qed

lemma search_run_reachable:
  "search_reachable posts s \<Longrightarrow> search_run posts s es = Inr (s', navs) \<Longrightarrow> search_reachable posts s'"
proof (induction es arbitrary: s navs)
  case Nil
  then show ?case by simp
next
  case (Cons e es)
  from Cons.prems(2) obtain s1 nav navs1 where st: "search_step posts s e = Inr (s1, nav)"
    and rest: "search_run posts s1 es = Inr (s', navs1)"
    by (auto split: sum.splits)
  from Cons.prems(1) st have "search_reachable posts s1" by (rule search_reachable.step)
  then show ?case using rest by (rule Cons.IH)
qed

lemma count_enumerate:
  "length (filter (\<lambda>(i, p). i = k) (enumerate m xs)) = (if m \<le> k \<and> k < m + length xs then 1 else 0)"
  by (induction xs arbitrary: m) (auto simp: filter_empty_conv in_set_enumerate_eq)

lemma js_mod_down_nat:
  "0 < n \<Longrightarrow> js_mod (Num (int k + 1)) (Num (int n)) = Num (int ((k + 1) mod n))"
  using js_mod_range [of "int k + 1" "int n"] by (simp add: zmod_int add.commute)

lemma js_mod_up_nat:
  assumes "0 < n"
  shows "js_mod (Num (int k - 1 + int n)) (Num (int n)) = Num (int ((k + n - 1) mod n))"
proof -
  have "0 \<le> int k - 1 + int n" using assms by simp
  with assms have m: "js_mod (Num (int k - 1 + int n)) (Num (int n)) = Num ((int k - 1 + int n) mod int n)"
    using js_mod_range [of "int k - 1 + int n" "int n"] by simp
  have "(int k - 1 + int n) mod int n = int ((k + n - 1) mod n)"
    using assms by (simp add: zmod_int of_nat_diff algebra_simps)
  with m show ?thesis by simp
qed

text \<open>An event that changes the state without navigating can be run ahead of the rest.\<close>

lemma search_run_silent:
  "search_step posts s e = Inr (s', None) \<Longrightarrow> search_run posts s (e # es) = search_run posts s' es"
  by (auto split: sum.splits)

text \<open>\<open>j\<close> presses of ArrowDown move the cursor \<open>j\<close> rows down while it stays in the list.\<close>

lemma search_run_arrows:
  assumes "is_open s" and "selected_index s = Num (int i)"
    and "i + j < length (filtered_posts posts (query s))"
  shows "search_run posts s (replicate j (InputKey (plain_key ''ArrowDown'')) @ rest) =
         search_run posts (s\<lparr>selected_index := Num (int (i + j))\<rparr>) rest"
  using assms
proof (induction j arbitrary: i s)
  case 0
  then show ?case by (cases s) simp
next
  case (Suc j)
  let ?n = "length (filtered_posts posts (query s))"
  let ?s1 = "s\<lparr>selected_index := Num (int (i + 1))\<rparr>"
  have "js_mod (Num (int i + 1)) (Num (int ?n)) = Num (int (i + 1))"
  proof -
    have n: "0 < ?n" "i + 1 < ?n" using Suc.prems(3) by linarith+
    then show ?thesis using js_mod_down_nat [OF n(1), of i] by (simp del: js_mod.simps)
  qed
  with Suc.prems(1,2) have st: "search_step posts s (InputKey (plain_key ''ArrowDown'')) = Inr (?s1, None)"
    by (simp add: input_keydown_def global_keydown_def Let_def del: js_mod.simps)
  have "search_run posts ?s1 (replicate j (InputKey (plain_key ''ArrowDown'')) @ rest) =
        search_run posts (s\<lparr>selected_index := Num (int (i + 1 + j))\<rparr>) rest"
    using Suc.IH [of ?s1 "i + 1"] Suc.prems by simp
  moreover have "search_run posts s (replicate (Suc j) (InputKey (plain_key ''ArrowDown'')) @ rest) =
      search_run posts ?s1 (replicate j (InputKey (plain_key ''ArrowDown'')) @ rest)"
    using search_run_silent [OF st] by (simp only: replicate_Suc append_Cons)
  ultimately show ?case by simp
qed

lemmas search_eval = search_init_def input_keydown_def global_keydown_def input_change_def
  filtered_posts_def post_matches_def js_lower_def search_view_def search_item_of_def

text \<open>
  C1. Invariant of the search widget: in every state reachable from the initial one by
  DOM events, whenever the filtered result list is non-empty the cursor
  \<open>selectedIndex\<close> is an integer index into it.
\<close>

theorem search_reachable_cursor_ok: "search_reachable posts s \<Longrightarrow> cursor_ok posts s"
  by (rule reachable_cursor_ok)

theorem search_reachable_cursor_ok_witness:
  "cursor_ok [\<lparr>sp_slug = ''b'', sp_title = ''Rust'', sp_excerpt = [], sp_date = ''2024-02-01'', sp_tags = [''rust'', ''go'']\<rparr>,
              \<lparr>sp_slug = ''a'', sp_title = ''Go'', sp_excerpt = [], sp_date = ''2024-01-01'', sp_tags = [''go'']\<rparr>]
     (search_init\<lparr>is_open := True, selected_index := Num 1\<rparr>)"
proof -
  let ?P = "[\<lparr>sp_slug = ''b'', sp_title = ''Rust'', sp_excerpt = [], sp_date = ''2024-02-01'', sp_tags = [''rust'', ''go'']\<rparr>,
             \<lparr>sp_slug = ''a'', sp_title = ''Go'', sp_excerpt = [], sp_date = ''2024-01-01'', sp_tags = [''go'']\<rparr>]"
  have "search_run ?P search_init
          [ClickOpenButton, InputKey \<lparr>ev_key = ''ArrowDown'', ev_meta = False, ev_ctrl = False\<rparr>]
        = Inr (search_init\<lparr>is_open := True, selected_index := Num 1\<rparr>, [])"
    by (simp add: search_eval js_simps)
  from search_run_reachable [OF search_reachable.init this]
  show ?thesis by (rule search_reachable_cursor_ok)
qed

text \<open>
  C2. Safety of the key handler: from a reachable state no event raises; in particular
  \<open>Enter\<close> never dereferences \<open>filteredPosts[selectedIndex]\<close> when it is \<open>undefined\<close>.
\<close>

theorem search_step_never_fails:
  assumes "search_reachable posts s"
  shows "\<exists>r. search_step posts s e = Inr r"
proof (cases e)
  case (InputKey k)
  have ok: "cursor_ok posts s" using assms by (rule reachable_cursor_ok)
  let ?fp = "filtered_posts posts (query s)"
  have "\<exists>r. input_keydown posts k s = Inr r"
  proof (cases "ev_key k = ''Enter'' \<and> 0 < length ?fp")
    case True
    with ok have "cursor_in (length ?fp) (selected_index s)" by (simp add: cursor_ok_def)
    then obtain p where "js_index ?fp (selected_index s) = Some p"
      using cursor_in_js_index by blast
    with True show ?thesis by (auto simp: input_keydown_def Let_def)
  qed (auto simp: input_keydown_def Let_def)
  with InputKey show ?thesis by (auto split: sum.splits)
qed (simp_all add: Let_def)

theorem search_step_never_fails_witness:
  "\<exists>r. search_step [\<lparr>sp_slug = ''a'', sp_title = ''Go'', sp_excerpt = [], sp_date = [], sp_tags = []\<rparr>]
        (search_init\<lparr>is_open := True\<rparr>) (InputKey \<lparr>ev_key = ''Enter'', ev_meta = False, ev_ctrl = False\<rparr>) = Inr r"
proof -
  have "search_run [\<lparr>sp_slug = ''a'', sp_title = ''Go'', sp_excerpt = [], sp_date = [], sp_tags = []\<rparr>]
          search_init [ClickOpenButton] = Inr (search_init\<lparr>is_open := True\<rparr>, [])"
    by (simp add: search_eval)
  from search_run_reachable [OF search_reachable.init this]
  show ?thesis by (rule search_step_never_fails)
qed

text \<open>
  C3. The filtered list keeps the input order: it is a subsequence of the posts, holds
  exactly the matching posts, and the empty query keeps every post.
\<close>

theorem filtered_posts_contract:
  "filtered_posts posts [] = posts \<and>
   subseq (filtered_posts posts q) posts \<and>
   set (filtered_posts posts q) = {p \<in> set posts. post_matches q p}"
  by (auto simp: filtered_posts_def post_matches_def js_lower_def js_simps)

text \<open>
  C4. Changing the query in the open dialog re-anchors the cursor at the first result.
\<close>

theorem input_change_resets:
  "is_open s \<Longrightarrow> v \<noteq> query s \<Longrightarrow>
   search_step posts s (InputChange v) = Inr (s\<lparr>query := v, selected_index := Num 0\<rparr>, None)"
  by (simp add: input_change_def)

theorem input_change_resets_witness:
  "is_open (search_init\<lparr>is_open := True, selected_index := Num 2\<rparr>) \<and>
   ''go'' \<noteq> query (search_init\<lparr>is_open := True, selected_index := Num 2\<rparr>) \<and>
   search_step [] (search_init\<lparr>is_open := True, selected_index := Num 2\<rparr>) (InputChange ''go'') =
     Inr (search_init\<lparr>is_open := True, query := ''go'', selected_index := Num 0\<rparr>, None)"
  using input_change_resets [of "search_init\<lparr>is_open := True, selected_index := Num 2\<rparr>" "''go''" "[]"]
  by (simp add: search_init_def)

text \<open>
  C5. The arrow keys move the cursor cyclically: from a reachable state with \<open>n > 0\<close>
  results and cursor \<open>k\<close>, ArrowDown gives \<open>(k + 1) mod n\<close> and ArrowUp gives
  \<open>(k + n - 1) mod n\<close>.
\<close>

theorem arrow_keys_wrap:
  assumes "search_reachable posts s" and "is_open s" and "selected_index s = Num (int k)"
    and "n = length (filtered_posts posts (query s))" and "0 < n"
  shows "search_step posts s (InputKey \<lparr>ev_key = ''ArrowDown'', ev_meta = False, ev_ctrl = False\<rparr>) =
           Inr (s\<lparr>selected_index := Num (int ((k + 1) mod n))\<rparr>, None) \<and>
         search_step posts s (InputKey \<lparr>ev_key = ''ArrowUp'', ev_meta = False, ev_ctrl = False\<rparr>) =
           Inr (s\<lparr>selected_index := Num (int ((k + n - 1) mod n))\<rparr>, None)"
proof -
  from reachable_cursor_ok [OF assms(1)] assms(3-5) have "k < n"
    by (simp add: cursor_ok_def)
  with assms show ?thesis
    by (simp add: input_keydown_def global_keydown_def Let_def js_mod_down_nat js_mod_up_nat
        del: js_mod.simps)
qed

theorem arrow_keys_wrap_witness:
  "search_step [\<lparr>sp_slug = ''a'', sp_title = ''Go'', sp_excerpt = [], sp_date = [], sp_tags = []\<rparr>,
                \<lparr>sp_slug = ''b'', sp_title = ''Rust'', sp_excerpt = [], sp_date = [], sp_tags = []\<rparr>]
     (search_init\<lparr>is_open := True\<rparr>) (InputKey \<lparr>ev_key = ''ArrowUp'', ev_meta = False, ev_ctrl = False\<rparr>) =
   Inr (search_init\<lparr>is_open := True, selected_index := Num 1\<rparr>, None)"
proof -
  let ?P = "[\<lparr>sp_slug = ''a'', sp_title = ''Go'', sp_excerpt = [], sp_date = [], sp_tags = []\<rparr>,
             \<lparr>sp_slug = ''b'', sp_title = ''Rust'', sp_excerpt = [], sp_date = [], sp_tags = []\<rparr>]"
  have r: "search_run ?P search_init [ClickOpenButton] = Inr (search_init\<lparr>is_open := True\<rparr>, [])"
    by (simp add: search_eval)
  have n: "2 = length (filtered_posts ?P (query (search_init\<lparr>is_open := True\<rparr>)))"
    by (simp add: search_eval js_simps)
  have "selected_index (search_init\<lparr>is_open := True\<rparr>) = Num (int 0)"
    by (simp add: search_init_def)
  from arrow_keys_wrap [OF search_run_reachable [OF search_reachable.init r] _ this n]
  show ?thesis by (simp add: search_init_def)
qed

text \<open>
  C6. The dialog highlights exactly one result whenever it shows any: the row whose
  index equals \<open>selectedIndex\<close>.
\<close>

theorem search_view_one_highlighted:
  assumes "search_reachable posts s" and "search_view posts s = SearchDialog q items" and "items \<noteq> []"
  shows "length (filter item_highlighted items) = 1"
proof -
  let ?fp = "filtered_posts posts (query s)"
  from assms(2) have items:
    "items = map (\<lambda>(i, p). search_item_of (selected_index s) i p) (enumerate 0 ?fp)"
    by (auto simp: search_view_def split: if_splits)
  with assms(3) have "?fp \<noteq> []" by auto
  with reachable_cursor_ok [OF assms(1)]
  have "cursor_in (length ?fp) (selected_index s)" by (simp add: cursor_ok_def)
  then obtain k where k: "selected_index s = Num (int k)" "k < length ?fp"
    using cursor_in_Num by blast
  have "filter item_highlighted items =
        map (\<lambda>(i, p). search_item_of (selected_index s) i p) (filter (\<lambda>(i, p). i = k) (enumerate 0 ?fp))"
    by (simp add: items filter_map comp_def search_item_of_def k case_prod_unfold)
  then show ?thesis using k(2) by (simp add: count_enumerate)
qed

theorem search_view_one_highlighted_witness:
  "length (filter item_highlighted
     (case search_view [\<lparr>sp_slug = ''a'', sp_title = ''Go'', sp_excerpt = [], sp_date = [], sp_tags = []\<rparr>]
             (search_init\<lparr>is_open := True\<rparr>) of SearchDialog q items \<Rightarrow> items | SearchButton \<Rightarrow> [])) = 1"
proof -
  let ?P = "[\<lparr>sp_slug = ''a'', sp_title = ''Go'', sp_excerpt = [], sp_date = [], sp_tags = []\<rparr>]"
  let ?items = "[\<lparr>item_key = ''a'', item_href = ''/posts/a'', item_title = ''Go'', item_excerpt = [], item_date = [],
                  item_tags = [], item_highlighted = True\<rparr>]"
  have r: "search_run ?P search_init [ClickOpenButton] = Inr (search_init\<lparr>is_open := True\<rparr>, [])"
    by (simp add: search_eval)
  have v: "search_view ?P (search_init\<lparr>is_open := True\<rparr>) = SearchDialog [] ?items"
    by (simp add: search_eval js_simps)
  have "length (filter item_highlighted ?items) = 1"
    using search_view_one_highlighted [OF search_run_reachable [OF search_reachable.init r] v] by simp
  with v show ?thesis by simp
qed

text \<open>
  C7. With no result, ArrowDown computes \<open>(prev + 1) % 0\<close> and stores \<open>NaN\<close> in the
  cursor; only the next change of the query repairs it (see C1, C4).
\<close>

theorem arrow_down_empty_nan:
  "is_open s \<Longrightarrow> filtered_posts posts (query s) = [] \<Longrightarrow>
   search_step posts s (InputKey \<lparr>ev_key = ''ArrowDown'', ev_meta = False, ev_ctrl = False\<rparr>) =
     Inr (s\<lparr>selected_index := NaN\<rparr>, None)"
  by (cases "selected_index s") (simp_all add: input_keydown_def global_keydown_def Let_def)

theorem arrow_down_empty_nan_witness:
  "search_step [] (search_init\<lparr>is_open := True\<rparr>)
     (InputKey \<lparr>ev_key = ''ArrowDown'', ev_meta = False, ev_ctrl = False\<rparr>) =
   Inr (search_init\<lparr>is_open := True, selected_index := NaN\<rparr>, None)"
  using arrow_down_empty_nan [of "search_init\<lparr>is_open := True\<rparr>" "[]"]
  by (simp add: search_init_def filtered_posts_def)

lemma highlighted_item:
  assumes "search_view posts s = SearchDialog q items" and "item \<in> set items" and "item_highlighted item"
  shows "\<exists>k. selected_index s = Num (int k) \<and> k < length (filtered_posts posts (query s)) \<and>
             item = search_item_of (selected_index s) k (filtered_posts posts (query s) ! k)"
proof -
  let ?fp = "filtered_posts posts (query s)"
  from assms(1) have items: "items = map (\<lambda>(i, p). search_item_of (selected_index s) i p) (enumerate 0 ?fp)"
    by (auto simp: search_view_def split: if_splits)
  with assms(2) obtain i p where ip: "(i, p) \<in> set (enumerate 0 ?fp)" and it: "item = search_item_of (selected_index s) i p"
    by auto
  from ip have "i < length ?fp" and "p = ?fp ! i" by (auto simp: in_set_enumerate_eq)
  moreover from it assms(3) have "selected_index s = Num (int i)" by (simp add: search_item_of_def)
  ultimately show ?thesis using it by blast
qed

text \<open>
  C16. Enter in the open dialog navigates to exactly the row the dialog highlights.
\<close>

theorem enter_opens_highlighted:
  assumes "search_view posts s = SearchDialog q items" and "item \<in> set items" and "item_highlighted item"
  shows "search_step posts s (InputKey \<lparr>ev_key = ''Enter'', ev_meta = False, ev_ctrl = False\<rparr>) =
         Inr (s, Some (item_href item))"
proof -
  from assms(1) have op: "is_open s" by (auto simp: search_view_def split: if_splits)
  from highlighted_item [OF assms] obtain k where k: "selected_index s = Num (int k)"
    "k < length (filtered_posts posts (query s))"
    "item = search_item_of (selected_index s) k (filtered_posts posts (query s) ! k)" by blast
  from k(2) have "0 < length (filtered_posts posts (query s))" by linarith
  with op k show ?thesis
    by (simp add: input_keydown_def global_keydown_def Let_def search_item_of_def)
qed

text \<open>
  Cmd+K or Ctrl+K anywhere opens the dialog, and Escape typed in the search input
  closes it (the key event bubbles from the input to the window listener), keeping the
  query.
\<close>

theorem keyboard_open_close:
  "search_step posts s (WindowKey \<lparr>ev_key = ''k'', ev_meta = True, ev_ctrl = c\<rparr>) = Inr (s\<lparr>is_open := True\<rparr>, None) \<and>
   search_step posts s (WindowKey \<lparr>ev_key = ''k'', ev_meta = m, ev_ctrl = True\<rparr>) = Inr (s\<lparr>is_open := True\<rparr>, None) \<and>
   (is_open s \<longrightarrow>
      search_step posts s (InputKey \<lparr>ev_key = ''Escape'', ev_meta = m, ev_ctrl = c\<rparr>) = Inr (s\<lparr>is_open := False\<rparr>, None))"
  by (simp add: global_keydown_def input_keydown_def Let_def)

text \<open>
  The filter ignores the case of the query: lower-casing it first changes nothing.
\<close>

theorem filter_case_insensitive: "filtered_posts posts (js_lower q) = filtered_posts posts q"
proof -
  have "post_matches (js_lower q) = post_matches q" by (rule ext) (simp add: post_matches_def)
  then show ?thesis by (simp add: filtered_posts_def)
qed

lemma search_step_nav:
  "search_step posts s e = Inr (s', Some u) \<Longrightarrow> \<exists>p \<in> set posts. u = ''/posts/'' @ sp_slug p"
proof (cases e)
  case (InputKey k)
  assume st: "search_step posts s e = Inr (s', Some u)"
  with InputKey obtain s1 where "input_keydown posts k s = Inr (s1, Some u)"
    by (auto split: if_splits sum.splits)
  then obtain p where "js_index (filtered_posts posts (query s)) (selected_index s) = Some p"
      and "u = ''/posts/'' @ sp_slug p"
    by (auto simp: input_keydown_def Let_def split: if_splits option.splits)
  moreover from this(1) have "p \<in> set (filtered_posts posts (query s))"
    by (force simp: js_index_Some)
  then have "p \<in> set posts" by (simp add: filtered_posts_def)
  ultimately show ?thesis by blast
next
  case (ClickResult i)
  assume "search_step posts s e = Inr (s', Some u)"
  with ClickResult have "i < length (filtered_posts posts (query s))"
    and u: "u = ''/posts/'' @ sp_slug (filtered_posts posts (query s) ! i)"
    by (auto simp: Let_def split: if_splits)
  then have "filtered_posts posts (query s) ! i \<in> set posts"
    using nth_mem by (fastforce simp: filtered_posts_def)
  with u show ?thesis by blast
qed (auto simp: Let_def split: if_splits)

text \<open>
  C19. Every navigation the widget performs, by Enter or by a click on a row, goes to
  \<open>/posts/<slug>\<close> of a post of the snapshot it was given.
\<close>

theorem search_navigates_to_posts:
  "search_run posts s es = Inr (s', navs) \<Longrightarrow> u \<in> set navs \<Longrightarrow> \<exists>p \<in> set posts. u = ''/posts/'' @ sp_slug p"
proof (induction es arbitrary: s navs)
  case Nil
  then show ?case by simp
next
  case (Cons e es)
  from Cons.prems(1) obtain s1 nav navs1 where st: "search_step posts s e = Inr (s1, nav)"
    and rest: "search_run posts s1 es = Inr (s', navs1)"
    and navs: "navs = (case nav of None \<Rightarrow> navs1 | Some v \<Rightarrow> v # navs1)"
    by (auto split: sum.splits)
  show ?case
  proof (cases "u \<in> set navs1")
    case True
    with rest show ?thesis by (rule Cons.IH)
  next
    case False
    with navs Cons.prems(2) have "nav = Some u" by (auto split: option.splits)
    with st show ?thesis by (blast intro: search_step_nav)
  qed
qed


theorem enter_opens_highlighted_witness:
  "search_step [\<lparr>sp_slug = ''a'', sp_title = ''Go'', sp_excerpt = [], sp_date = [], sp_tags = []\<rparr>]
     (search_init\<lparr>is_open := True\<rparr>) (InputKey \<lparr>ev_key = ''Enter'', ev_meta = False, ev_ctrl = False\<rparr>) =
   Inr (search_init\<lparr>is_open := True\<rparr>, Some ''/posts/a'')"
proof -
  let ?P = "[\<lparr>sp_slug = ''a'', sp_title = ''Go'', sp_excerpt = [], sp_date = [], sp_tags = []\<rparr>]"
  let ?it = "\<lparr>item_key = ''a'', item_href = ''/posts/a'', item_title = ''Go'', item_excerpt = [], item_date = [],
              item_tags = [], item_highlighted = True\<rparr>"
  have v: "search_view ?P (search_init\<lparr>is_open := True\<rparr>) = SearchDialog [] [?it]"
    by (simp add: search_eval js_simps)
  have "?it \<in> set [?it]" "item_highlighted ?it" by simp_all
  from enter_opens_highlighted [OF v this] show ?thesis by simp
qed

theorem keyboard_open_close_witness:
  "search_step [] (search_init\<lparr>is_open := True\<rparr>) (InputKey \<lparr>ev_key = ''Escape'', ev_meta = False, ev_ctrl = False\<rparr>) =
   Inr (search_init, None)"
proof -
  have "is_open (search_init\<lparr>is_open := True\<rparr>)" by simp
  with keyboard_open_close [of "[]" "search_init\<lparr>is_open := True\<rparr>" False False]
  show ?thesis by (simp add: search_init_def)
qed

theorem search_navigates_to_posts_witness:
  "\<exists>p \<in> set [\<lparr>sp_slug = ''a'', sp_title = ''Go'', sp_excerpt = [], sp_date = [], sp_tags = []\<rparr>].
     ''/posts/a'' = ''/posts/'' @ sp_slug p"
proof -
  let ?P = "[\<lparr>sp_slug = ''a'', sp_title = ''Go'', sp_excerpt = [], sp_date = [], sp_tags = []\<rparr>]"
  have r: "search_run ?P search_init [ClickOpenButton, InputKey \<lparr>ev_key = ''Enter'', ev_meta = False, ev_ctrl = False\<rparr>]
           = Inr (search_init\<lparr>is_open := True\<rparr>, [''/posts/a''])"
    by (simp add: search_eval js_simps)
  have "''/posts/a'' \<in> set [''/posts/a'']" by simp
  from search_navigates_to_posts [OF r this] show ?thesis .
qed

lemma keyboard_opens_post:
  assumes "p \<in> set posts"
  shows "\<exists>k s'. search_run posts search_init
            ([WindowKey \<lparr>ev_key = ''k'', ev_meta = False, ev_ctrl = True\<rparr>, InputChange (sp_title p)] @
             replicate k (InputKey (plain_key ''ArrowDown'')) @ [InputKey (plain_key ''Enter'')]) =
           Inr (s', [''/posts/'' @ sp_slug p])"
proof -
  let ?q = "sp_title p"
  let ?fp = "filtered_posts posts ?q"
  let ?down = "InputKey (plain_key ''ArrowDown'')"
  let ?enter = "InputKey (plain_key ''Enter'')"
  have "post_matches ?q p" by (simp add: post_matches_def js_simps)
  with assms have "p \<in> set ?fp" by (simp add: filtered_posts_def)
  then obtain k where k: "k < length ?fp" "?fp ! k = p" by (auto simp: in_set_conv_nth)
  let ?s2 = "\<lparr>is_open = True, query = ?q, selected_index = Num 0\<rparr>"
  let ?s3 = "\<lparr>is_open = True, query = ?q, selected_index = Num (int k)\<rparr>"
  have r1: "search_run posts search_init
              ([WindowKey \<lparr>ev_key = ''k'', ev_meta = False, ev_ctrl = True\<rparr>, InputChange ?q] @
               replicate k ?down @ [?enter]) =
            search_run posts ?s2 (replicate k ?down @ [?enter])"
    by (simp add: search_run_silent search_init_def input_change_def global_keydown_def
        del: search_run.simps(2))
  have r2: "search_run posts ?s2 (replicate k ?down @ [?enter]) = search_run posts ?s3 [?enter]"
    using search_run_arrows [of ?s2 0 k posts "[?enter]"] k(1) by simp
  from k have "0 < length ?fp" by linarith
  with k have "search_step posts ?s3 ?enter = Inr (?s3, Some (''/posts/'' @ sp_slug p))"
    by (simp add: input_keydown_def global_keydown_def Let_def)
  then have "search_run posts ?s3 [?enter] = Inr (?s3, [''/posts/'' @ sp_slug p])" by simp
  with r1 r2 show ?thesis by metis
qed

text \<open>
  C23. Keyboard liveness: every post of the snapshot can be opened from the keyboard
  alone. Ctrl+K opens the dialog, typing the post's title selects the matching posts and
  resets the cursor to the first, some number of ArrowDown presses moves the cursor to
  the post, and Enter navigates to \<open>/posts/<slug>\<close> of that post; the run raises no
  error.
\<close>

theorem every_post_reachable_by_keyboard:
  assumes "p \<in> set posts"
  shows "\<exists>k s'. search_run posts search_init
            ([WindowKey \<lparr>ev_key = ''k'', ev_meta = False, ev_ctrl = True\<rparr>, InputChange (sp_title p)] @
             replicate k (InputKey (plain_key ''ArrowDown'')) @ [InputKey (plain_key ''Enter'')]) =
           Inr (s', [''/posts/'' @ sp_slug p])"
  using assms by (rule keyboard_opens_post)

theorem every_post_reachable_by_keyboard_witness:
  "\<exists>k s'. search_run
     [\<lparr>sp_slug = ''a'', sp_title = ''Go'', sp_excerpt = [], sp_date = [], sp_tags = []\<rparr>,
      \<lparr>sp_slug = ''b'', sp_title = ''Go on'', sp_excerpt = [], sp_date = [], sp_tags = []\<rparr>] search_init
     ([WindowKey \<lparr>ev_key = ''k'', ev_meta = False, ev_ctrl = True\<rparr>, InputChange ''Go on''] @
      replicate k (InputKey (plain_key ''ArrowDown'')) @ [InputKey (plain_key ''Enter'')]) =
     Inr (s', [''/posts/b''])"
  using every_post_reachable_by_keyboard
    [of "\<lparr>sp_slug = ''b'', sp_title = ''Go on'', sp_excerpt = [], sp_date = [], sp_tags = []\<rparr>"
        "[\<lparr>sp_slug = ''a'', sp_title = ''Go'', sp_excerpt = [], sp_date = [], sp_tags = []\<rparr>,
          \<lparr>sp_slug = ''b'', sp_title = ''Go on'', sp_excerpt = [], sp_date = [], sp_tags = []\<rparr>]"]
  by simp

text \<open>
  C28. The input gets the focus exactly when the dialog opens: a step focuses it if and
  only if the dialog was closed and the event is a click on the search button or
  Cmd/Ctrl+K on the window; no event of the open dialog refocuses it.
\<close>

theorem focus_on_open:
  assumes "search_step posts s e = Inr (s', nav)"
  shows "focus_input s s' \<longleftrightarrow>
           \<not> is_open s \<and> (e = ClickOpenButton \<or> (\<exists>k. e = WindowKey k \<and> (ev_meta k \<or> ev_ctrl k) \<and> ev_key k = ''k''))"
  using assms
  by (cases e) (auto simp: focus_input_def global_keydown_def input_change_def Let_def
      split: if_splits sum.splits prod.splits)

theorem focus_on_open_witness:
  "focus_input search_init (search_init\<lparr>is_open := True\<rparr>)"
proof -
  have "search_step [] search_init (WindowKey \<lparr>ev_key = ''k'', ev_meta = True, ev_ctrl = False\<rparr>) =
        Inr (search_init\<lparr>is_open := True\<rparr>, None)"
    by (simp add: search_init_def global_keydown_def)
  from focus_on_open [OF this] show ?thesis by (simp add: search_init_def)
qed

end
