(* ===== verification/Posts.thy ===== *)
theory Posts
  imports Prelude "HOL-Library.Option_ord"
begin

text \<open>
  The content pipeline behind \<open>@/lib/posts\<close> (\<open>getAllPosts\<close>, \<open>getPostBySlug\<close>,
  \<open>getPostsByTag\<close>, \<open>getAllTags\<close>, \<open>getAllSlugs\<close>). That module is not part of the
  sources under \<open>src/\<close>; this theory models it from the specification (sections 3,
  4.1 to 4.3 and 7): raw records from the content store are validated (a record
  without slug, title or a valid ISO date is skipped with a warning), duplicate slugs
  are resolved first-seen-wins with a warning, the posts are sorted by date descending
  and slug ascending, and the index holds the slug map, the tag map and the sorted tag
  list. The index is built once and cached (\<open>cache\<close>, \<open>run_query\<close>).
  Reading time is the word count divided by 200 words per minute, rounded up, and absent
  for an empty body; the excerpt is the first paragraph without markdown syntax
  characters, cut to at most 150 bytes at a UTF-8 character boundary. \<open>post_wf\<close> is
  the post schema of the specification; every indexed post satisfies it
  (\<open>build_index_wf\<close>).
\<close>

section \<open>Records\<close>

record raw_post =
  raw_slug :: "string option"
  raw_title :: "string option"
  raw_date :: "string option"
  raw_tags :: "string list"
  raw_content :: string

record post =
  slug :: string
  title :: string
  date :: string
  tags :: "string list"
  excerpt :: string
  content :: string
  readingTime :: "nat option"

datatype load_warning = MalformedPost nat | DuplicateSlug string

datatype load_error = ContentLoadError

section \<open>Dates\<close>

fun digits_val :: "nat \<Rightarrow> string \<Rightarrow> nat option" where
  "digits_val acc [] = Some acc"
| "digits_val acc (c # cs) =
     (let n = of_char c :: nat in
      if 48 \<le> n \<and> n \<le> 57 then digits_val (10 * acc + (n - 48)) cs else None)"

definition days_in_month :: "nat \<Rightarrow> nat \<Rightarrow> nat" where
  "days_in_month y m =
     (if m = 2 then (if 4 dvd y \<and> (\<not> 100 dvd y \<or> 400 dvd y) then 29 else 28)
      else if m \<in> {4, 6, 9, 11} then 30 else 31)"

text \<open>An ISO-8601 calendar date \<open>YYYY-MM-DD\<close> naming a day that exists.\<close>

definition valid_date :: "string \<Rightarrow> bool" where
  "valid_date d =
     (length d = 10 \<and> d ! 4 = CHR ''-'' \<and> d ! 7 = CHR ''-'' \<and>
      (case (digits_val 0 (take 4 d), digits_val 0 (take 2 (drop 5 d)), digits_val 0 (drop 8 d)) of
         (Some y, Some m, Some dd) \<Rightarrow> 1 \<le> m \<and> m \<le> 12 \<and> 1 \<le> dd \<and> dd \<le> days_in_month y m
       | _ \<Rightarrow> False))"

section \<open>Reading time\<close>

definition is_space :: "char \<Rightarrow> bool" where
  "is_space c = (c \<in> {CHR '' '', CHR 0x09, CHR 0x0A, CHR 0x0D})"

text \<open>Words are maximal runs of non-space characters; the flag says whether the
  previous character was part of a word.\<close>

fun count_words :: "bool \<Rightarrow> string \<Rightarrow> nat" where
  "count_words in_word [] = 0"
| "count_words in_word (c # cs) =
     (if is_space c then count_words False cs
      else (if in_word then 0 else 1) + count_words True cs)"

definition word_count :: "string \<Rightarrow> nat" where
  "word_count s = count_words False s"

definition reading_time :: "string \<Rightarrow> nat option" where
  "reading_time md =
     (let n = word_count md in
      if n = 0 then None else Some ((n + 199) div 200))"

section \<open>Excerpt\<close>

definition md_syntax_char :: "char \<Rightarrow> bool" where
  "md_syntax_char c = (c \<in> set ''#*_`>[]'')"

text \<open>The text before the first blank line.\<close>

fun first_paragraph :: "string \<Rightarrow> string" where
  "first_paragraph [] = []"
| "first_paragraph (c # cs) =
     (if c = CHR 0x0A \<and> take 1 cs = [CHR 0x0A] then [] else c # first_paragraph cs)"

text \<open>The largest cut \<open>k \<le> n\<close> that does not fall before a UTF-8 continuation byte
  (\<open>10xxxxxx\<close>).\<close>

fun char_boundary :: "string \<Rightarrow> nat \<Rightarrow> nat" where
  "char_boundary s 0 = 0"
| "char_boundary s (Suc k) =
     (if Suc k < length s \<and> (of_char (s ! Suc k) :: nat) div 64 = 2 then char_boundary s k else Suc k)"

definition truncate_utf8 :: "nat \<Rightarrow> string \<Rightarrow> string" where
  "truncate_utf8 n s = (if length s \<le> n then s else take (char_boundary s n) s)"

definition excerpt_of :: "nat \<Rightarrow> string \<Rightarrow> string" where
  "excerpt_of n md = truncate_utf8 n (filter (\<lambda>c. \<not> md_syntax_char c) (first_paragraph md))"


section \<open>Loading\<close>

text \<open>Validation of one record (\<open>MalformedPostError\<close> is \<open>None\<close>).\<close>

text \<open>
  The tags of a post are a set whose insertion order is kept for display (specification,
  section 3): a repeated tag keeps its first position.
\<close>

definition tag_set :: "string list \<Rightarrow> string list" where
  "tag_set ts = rev (remdups (rev ts))"

definition to_post :: "raw_post \<Rightarrow> post option" where
  "to_post r =
     (case (raw_slug r, raw_title r, raw_date r) of
        (Some s, Some t, Some d) \<Rightarrow>
          if s \<noteq> [] \<and> t \<noteq> [] \<and> valid_date d then
            Some \<lparr>slug = s, title = t, date = d, tags = tag_set (raw_tags r),
                  excerpt = excerpt_of 150 (raw_content r),
                  content = raw_content r, readingTime = reading_time (raw_content r)\<rparr>
          else None
      | _ \<Rightarrow> None)"

text \<open>
  The load loop over the store's records, numbered from \<open>i\<close>; \<open>seen\<close> holds the slugs
  already taken. A malformed record or a later duplicate is skipped with a warning.
\<close>

fun load_posts :: "nat \<Rightarrow> string list \<Rightarrow> raw_post list \<Rightarrow> post list \<times> load_warning list" where
  "load_posts i seen [] = ([], [])"
| "load_posts i seen (r # rs) =
     (case to_post r of
        None \<Rightarrow> (let (ps, ws) = load_posts (Suc i) seen rs in (ps, MalformedPost i # ws))
      | Some p \<Rightarrow>
          if slug p \<in> set seen then
            (let (ps, ws) = load_posts (Suc i) seen rs in (ps, DuplicateSlug (slug p) # ws))
          else
            (let (ps, ws) = load_posts (Suc i) (slug p # seen) rs in (p # ps, ws)))"

section \<open>Ordering\<close>

text \<open>Date descending, ties by slug ascending (ISO dates order as strings).\<close>

definition post_before :: "post \<Rightarrow> post \<Rightarrow> bool" where
  "post_before p q = (date q < date p \<or> (date p = date q \<and> slug p \<le> slug q))"

fun insort_post :: "post \<Rightarrow> post list \<Rightarrow> post list" where
  "insort_post p [] = [p]"
| "insort_post p (q # qs) = (if post_before p q then p # q # qs else q # insort_post p qs)"

fun sort_posts :: "post list \<Rightarrow> post list" where
  "sort_posts [] = []"
| "sort_posts (p # ps) = insort_post p (sort_posts ps)"

section \<open>The index and its queries\<close>

record post_index =
  all_posts :: "post list"
  by_slug :: "string \<rightharpoonup> post"
  tag_index :: "string \<rightharpoonup> post list"
  all_tags :: "string list"

definition index_of :: "post list \<Rightarrow> post_index" where
  "index_of ps =
     (let all = sort_posts ps;
          tgs = sort (remdups (concat (map tags all)))
      in \<lparr>all_posts = all,
          by_slug = map_of (map (\<lambda>p. (slug p, p)) all),
          tag_index = map_of (map (\<lambda>t. (t, filter (\<lambda>p. t \<in> set (tags p)) all)) tgs),
          all_tags = tgs\<rparr>)"

definition build_index :: "raw_post list \<Rightarrow> post_index \<times> load_warning list" where
  "build_index raws = (let (ps, ws) = load_posts 0 [] raws in (index_of ps, ws))"

definition getAllPosts :: "post_index \<Rightarrow> post list" where
  "getAllPosts ix = all_posts ix"

definition getPostBySlug :: "post_index \<Rightarrow> string \<Rightarrow> post option" where
  "getPostBySlug ix s = by_slug ix s"

definition getPostsByTag :: "post_index \<Rightarrow> string \<Rightarrow> post list" where
  "getPostsByTag ix t = (case tag_index ix t of None \<Rightarrow> [] | Some ps \<Rightarrow> ps)"

definition getAllTags :: "post_index \<Rightarrow> string list" where
  "getAllTags ix = all_tags ix"

definition getAllSlugs :: "post_index \<Rightarrow> string list" where
  "getAllSlugs ix = map slug (all_posts ix)"

section \<open>Build-once cache\<close>

text \<open>
  The process-wide index: \<open>UNBUILT\<close> until the first query, then \<open>READY\<close> for the
  rest of the process. The content store is \<open>None\<close> when unreadable
  (\<open>ContentLoadError\<close>, fatal). A query on the ready index never reads the store.
\<close>

datatype cache = Unbuilt | Ready post_index

datatype query_op = GetAllPosts | GetPostBySlug string | GetPostsByTag string | GetAllTags | GetAllSlugs

datatype answer = Posts "post list" | MaybePost "post option" | Tags "string list" | Slugs "string list"

fun answer_query :: "post_index \<Rightarrow> query_op \<Rightarrow> answer" where
  "answer_query ix GetAllPosts = Posts (getAllPosts ix)"
| "answer_query ix (GetPostBySlug s) = MaybePost (getPostBySlug ix s)"
| "answer_query ix (GetPostsByTag t) = Posts (getPostsByTag ix t)"
| "answer_query ix GetAllTags = Tags (getAllTags ix)"
| "answer_query ix GetAllSlugs = Slugs (getAllSlugs ix)"

fun run_query :: "raw_post list option \<Rightarrow> cache \<Rightarrow> query_op \<Rightarrow> load_error + (answer \<times> cache)" where
  "run_query src (Ready ix) q = Inr (answer_query ix q, Ready ix)"
| "run_query None Unbuilt q = Inl ContentLoadError"
| "run_query (Some raws) Unbuilt q =
     (let ix = fst (build_index raws) in Inr (answer_query ix q, Ready ix))"

text \<open>A sequence of calls, each seeing the store as it is at that moment.\<close>

fun run_queries ::
  "cache \<Rightarrow> (raw_post list option \<times> query_op) list \<Rightarrow> load_error + (answer list \<times> cache)" where
  "run_queries c [] = Inr ([], c)"
| "run_queries c ((src, q) # calls) =
     (case run_query src c q of
        Inl e \<Rightarrow> Inl e
      | Inr (a, c') \<Rightarrow>
          (case run_queries c' calls of
             Inl e \<Rightarrow> Inl e
           | Inr (as, c'') \<Rightarrow> Inr (a # as, c'')))"

section \<open>Well-formed posts\<close>

text \<open>
  The schema of a \<open>Post\<close> (specification, section 3) as a predicate: slug and title
  present, an ISO date that is a calendar date, tags without repetition, and the derived
  fields computed from the content.
\<close>

definition post_wf :: "post \<Rightarrow> bool" where
  "post_wf p \<longleftrightarrow> slug p \<noteq> [] \<and> title p \<noteq> [] \<and> valid_date (date p) \<and> distinct (tags p) \<and>
     excerpt p = excerpt_of 150 (content p) \<and> readingTime p = reading_time (content p)"

section \<open>Lemmas\<close>

lemma set_tag_set [simp]: "set (tag_set ts) = set ts"
  and distinct_tag_set [simp]: "distinct (tag_set ts)"
  by (simp_all add: tag_set_def)

lemma fst_load_posts_Cons:
  "fst (load_posts i seen (r # rs)) =
     (case to_post r of
        None \<Rightarrow> fst (load_posts (Suc i) seen rs)
      | Some p \<Rightarrow> if slug p \<in> set seen then fst (load_posts (Suc i) seen rs)
                 else p # fst (load_posts (Suc i) (slug p # seen) rs))"
  by (simp add: split_def Let_def split: option.split)

declare load_posts.simps(2) [simp del]

lemma load_posts_slugs:
  "distinct (map slug (fst (load_posts i seen rs))) \<and>
   (\<forall>p \<in> set (fst (load_posts i seen rs)). slug p \<notin> set seen)"
proof (induction rs arbitrary: i seen)
  case Nil
  then show ?case by simp
next
  case (Cons r rs)
  show ?case
  proof (cases "to_post r")
    case None
    with Cons.IH show ?thesis by (simp add: fst_load_posts_Cons)
  next
    case (Some p)
    with Cons.IH [of "Suc i" seen] Cons.IH [of "Suc i" "slug p # seen"] show ?thesis
      by (auto simp add: fst_load_posts_Cons)
  qed
qed


lemma load_posts_valid:
  "p \<in> set (fst (load_posts i seen rs)) \<Longrightarrow> \<exists>r \<in> set rs. to_post r = Some p"
proof (induction rs arbitrary: i seen)
  case (Cons r rs)
  then show ?case by (auto simp: fst_load_posts_Cons split: option.splits if_splits)
qed simp

lemma load_posts_first_seen:
  "s \<notin> set seen \<Longrightarrow>
   find (\<lambda>p. slug p = s) (fst (load_posts i seen rs)) = find (\<lambda>p. slug p = s) (List.map_filter to_post rs)"
proof (induction rs arbitrary: i seen)
  case (Cons r rs)
  then show ?case by (auto simp: fst_load_posts_Cons List.map_filter_simps split: option.splits)
qed (simp add: List.map_filter_simps)

lemma post_before_total: "post_before p q \<or> post_before q p"
  by (auto simp: post_before_def)

lemma post_before_trans: "post_before p q \<Longrightarrow> post_before q r \<Longrightarrow> post_before p r"
  by (auto simp: post_before_def)

lemma mset_insort_post: "mset (insort_post p xs) = add_mset p (mset xs)"
  by (induction xs) auto

lemma set_insort_post: "set (insort_post p xs) = insert p (set xs)"
  by (simp flip: set_mset_mset add: mset_insort_post)

lemma mset_sort_posts: "mset (sort_posts xs) = mset xs"
proof (induction xs)
  case (Cons p ps)
  then show ?case by (simp add: mset_insort_post)
qed simp

lemma sorted_insort_post:
  "sorted_wrt post_before xs \<Longrightarrow> sorted_wrt post_before (insort_post p xs)"
proof (induction xs)
  case Nil
  then show ?case by simp
next
  case (Cons q qs)
  show ?case
  proof (cases "post_before p q")
    case True
    have "\<forall>x \<in> set qs. post_before p x"
      using Cons.prems True post_before_trans [of p q] by simp
    with True Cons.prems show ?thesis by simp
  next
    case False
    then have qp: "post_before q p" using post_before_total by blast
    from Cons have "sorted_wrt post_before (insort_post p qs)" by simp
    with qp Cons.prems False show ?thesis by (simp add: set_insort_post)
  qed
qed


lemma sorted_sort_posts: "sorted_wrt post_before (sort_posts xs)"
  by (induction xs) (simp_all add: sorted_insort_post)

lemma set_sort_posts: "set (sort_posts xs) = set xs"
  by (simp flip: set_mset_mset add: mset_sort_posts)

lemma distinct_slugs_sort_posts:
  "distinct (map slug (sort_posts xs)) = distinct (map slug xs)"
proof -
  have "mset (map slug (sort_posts xs)) = mset (map slug xs)"
    by (simp add: mset_sort_posts)
  then show ?thesis by (metis mset_eq_imp_distinct_iff)
qed

lemma sorted_wrt_unique:
  assumes "sorted_wrt R xs" and "sorted_wrt R ys" and "mset xs = mset ys"
    and "\<And>x y. x \<in> set xs \<Longrightarrow> y \<in> set xs \<Longrightarrow> R x y \<Longrightarrow> R y x \<Longrightarrow> x = y"
  shows "xs = ys"
  using assms
proof (induction xs arbitrary: ys)
  case Nil
  then show ?case by simp
next
  case (Cons x xs)
  then obtain y ys' where ys: "ys = y # ys'" by (cases ys) auto
  from Cons.prems(3) have st: "set (x # xs) = set ys" by (metis set_mset_mset)
  have "x = y"
  proof (rule ccontr)
    assume ne: "x \<noteq> y"
    with st ys have "x \<in> set ys'" "y \<in> set xs" by auto
    with Cons.prems(1,2) ys have "R y x" "R x y" by simp_all
    moreover have "y \<in> set (x # xs)" using st ys by simp
    ultimately show False using Cons.prems(4) ne by simp
  qed
  with Cons.prems ys have "xs = ys'"
    by (intro Cons.IH) auto
  with \<open>x = y\<close> ys show ?case by simp
qed

lemma post_before_antisym:
  "post_before p q \<Longrightarrow> post_before q p \<Longrightarrow> slug p = slug q"
  by (auto simp: post_before_def)

text \<open>The order of the index is determined by its posts.\<close>

lemma sort_posts_unique:
  assumes "sorted_wrt post_before ys" and "mset ys = mset xs" and "distinct (map slug xs)"
  shows "ys = sort_posts xs"
proof (rule sorted_wrt_unique [OF assms(1) sorted_sort_posts])
  show "mset ys = mset (sort_posts xs)" by (simp add: assms(2) mset_sort_posts)
  fix p q assume "p \<in> set ys" "q \<in> set ys" "post_before p q" "post_before q p"
  moreover have "inj_on slug (set ys)"
    using assms(2,3) by (metis distinct_map mset_eq_setD)
  ultimately show "p = q" by (auto dest: post_before_antisym inj_onD)
qed

lemma map_of_keys:
  "map_of (map (\<lambda>k. (k, f k)) ks) t = (if t \<in> set ks then Some (f t) else None)"
  by (induction ks) auto

lemma map_of_slugs:
  "distinct (map slug ps) \<Longrightarrow>
   map_of (map (\<lambda>p. (slug p, p)) ps) s = Some p \<longleftrightarrow> p \<in> set ps \<and> slug p = s"
  by (induction ps) (auto simp: image_iff)

lemma index_of_simps:
  "getAllPosts (index_of ps) = sort_posts ps"
  "getAllSlugs (index_of ps) = map slug (sort_posts ps)"
  "getAllTags (index_of ps) = sort (remdups (concat (map tags (sort_posts ps))))"
  "getPostsByTag (index_of ps) t = filter (\<lambda>p. t \<in> set (tags p)) (sort_posts ps)"
proof -
  show "getAllPosts (index_of ps) = sort_posts ps" "getAllSlugs (index_of ps) = map slug (sort_posts ps)"
    "getAllTags (index_of ps) = sort (remdups (concat (map tags (sort_posts ps))))"
    by (simp_all add: index_of_def getAllPosts_def getAllSlugs_def getAllTags_def Let_def)
  have "t \<notin> set (concat (map tags (sort_posts ps))) \<Longrightarrow> filter (\<lambda>p. t \<in> set (tags p)) (sort_posts ps) = []"
    by (auto simp: filter_empty_conv)
  then show "getPostsByTag (index_of ps) t = filter (\<lambda>p. t \<in> set (tags p)) (sort_posts ps)"
    by (auto simp: index_of_def getPostsByTag_def Let_def map_of_keys)
qed

lemma getPostBySlug_index_of:
  "distinct (map slug ps) \<Longrightarrow>
   getPostBySlug (index_of ps) s = Some p \<longleftrightarrow> p \<in> set ps \<and> slug p = s"
  by (simp add: index_of_def getPostBySlug_def Let_def map_of_slugs distinct_slugs_sort_posts set_sort_posts)

lemma getAllTags_index_of:
  "sorted (getAllTags (index_of ps)) \<and> distinct (getAllTags (index_of ps)) \<and>
   set (getAllTags (index_of ps)) = (\<Union>p \<in> set ps. set (tags p))"
  by (simp add: index_of_simps set_sort_posts)

lemma tag_known_iff_posts:
  "t \<in> set (getAllTags (index_of ps)) \<longleftrightarrow> getPostsByTag (index_of ps) t \<noteq> []"
  by (auto simp: index_of_simps set_sort_posts filter_empty_conv)


lemma find_distinct_key:
  "distinct (map f xs) \<Longrightarrow> find (\<lambda>x. f x = k) xs = Some p \<longleftrightarrow> p \<in> set xs \<and> f p = k"
  by (induction xs) (auto simp: image_iff)

lemma build_index_index_of: "fst (build_index raws) = index_of (fst (load_posts 0 [] raws))"
  by (simp add: build_index_def split_def Let_def)

lemma getPostBySlug_build_index:
  "getPostBySlug (fst (build_index raws)) s = find (\<lambda>p. slug p = s) (List.map_filter to_post raws)"
proof -
  let ?ps = "fst (load_posts 0 [] raws)"
  have d: "distinct (map slug ?ps)" using load_posts_slugs by blast
  have "getPostBySlug (index_of ?ps) s = find (\<lambda>p. slug p = s) ?ps"
  proof (cases "find (\<lambda>p. slug p = s) ?ps")
    case None
    then have "\<forall>p \<in> set ?ps. slug p \<noteq> s" by (simp add: find_None_iff)
    with d have "getPostBySlug (index_of ?ps) s = None"
      using getPostBySlug_index_of [OF d, of s] by (cases "getPostBySlug (index_of ?ps) s") auto
    with None show ?thesis by simp
  next
    case (Some p)
    with d have "p \<in> set ?ps \<and> slug p = s" by (simp add: find_distinct_key)
    with d have "getPostBySlug (index_of ?ps) s = Some p" by (simp add: getPostBySlug_index_of)
    with Some show ?thesis by simp
  qed
  then show ?thesis by (simp add: build_index_index_of load_posts_first_seen)
qed

lemma count_words_append_space:
  "is_space c \<Longrightarrow> count_words f (a @ c # b) = count_words f a + count_words False b"
  by (induction a arbitrary: f) auto

lemma word_count_double: "word_count (md @ CHR 0x0A # md) = 2 * word_count md"
  by (simp add: word_count_def count_words_append_space is_space_def)

lemma reading_time_None: "reading_time md = None \<longleftrightarrow> word_count md = 0"
  by (simp add: reading_time_def Let_def)

lemma reading_time_Some: "reading_time md = Some n \<Longrightarrow> 0 < n"
  by (auto simp: reading_time_def Let_def split: if_splits)

lemma reading_time_mono: "word_count a \<le> word_count b \<Longrightarrow> reading_time a \<le> reading_time b"
  by (auto simp: reading_time_def Let_def intro: div_le_mono)

lemma char_boundary_le: "char_boundary s n \<le> n"
  by (induction n) auto

lemma char_boundary_ok:
  "char_boundary s n = 0 \<or> length s \<le> char_boundary s n \<or> (of_char (s ! char_boundary s n) :: nat) div 64 \<noteq> 2"
  by (induction n) auto

lemma truncate_utf8_prefix: "prefix (truncate_utf8 n s) s \<and> length (truncate_utf8 n s) \<le> n"
  using char_boundary_le [of s n] by (auto simp: truncate_utf8_def take_is_prefix)

lemma run_queries_Ready:
  "run_queries (Ready ix) calls = Inr (map (answer_query ix \<circ> snd) calls, Ready ix)"
  by (induction calls) auto

lemma run_queries_Unbuilt:
  "run_queries Unbuilt ((Some raws, q) # calls) =
     Inr (map (answer_query (fst (build_index raws)) \<circ> snd) ((Some raws, q) # calls),
          Ready (fst (build_index raws)))"
  by (simp add: run_queries_Ready Let_def)

lemma run_queries_unreadable: "run_queries Unbuilt ((None, q) # calls) = Inl ContentLoadError"
  by simp

lemma in_map_filter: "p \<in> set (List.map_filter f xs) \<Longrightarrow> \<exists>x \<in> set xs. f x = Some p"
  by (induction xs) (auto simp: List.map_filter_simps split: option.splits)

lemma getPostBySlug_build_index_raw:
  "getPostBySlug (fst (build_index raws)) s = Some p \<Longrightarrow> \<exists>r \<in> set raws. to_post r = Some p"
  by (auto simp: getPostBySlug_build_index dest!: find_Some_iff [THEN iffD1] intro: in_map_filter)

lemma sort_posts_Nil_iff: "sort_posts ps = [] \<longleftrightarrow> ps = []"
  by (metis mset_sort_posts mset_zero_iff)

lemma excerpt_of_bounds:
  "prefix (excerpt_of n md) (filter (\<lambda>c. \<not> md_syntax_char c) (first_paragraph md)) \<and>
   length (excerpt_of n md) \<le> n \<and>
   (length (excerpt_of n md) = 0 \<or>
    length (excerpt_of n md) = length (filter (\<lambda>c. \<not> md_syntax_char c) (first_paragraph md)) \<or>
    (of_char (filter (\<lambda>c. \<not> md_syntax_char c) (first_paragraph md) ! length (excerpt_of n md)) :: nat) div 64 \<noteq> 2)"
proof -
  let ?s = "filter (\<lambda>c. \<not> md_syntax_char c) (first_paragraph md)"
  have e: "excerpt_of n md = truncate_utf8 n ?s" by (simp add: excerpt_of_def)
  show ?thesis
  proof (cases "length ?s \<le> n")
    case True
    with e show ?thesis by (simp add: truncate_utf8_def)
  next
    case False
    let ?k = "char_boundary ?s n"
    have k: "?k \<le> n" by (rule char_boundary_le)
    with False e have "excerpt_of n md = take ?k ?s" "length (excerpt_of n md) = ?k"
      by (simp_all add: truncate_utf8_def)
    with k char_boundary_ok [of ?s n] show ?thesis by (auto simp: take_is_prefix)
  qed
qed

lemma to_post_excerpt: "to_post r = Some p \<Longrightarrow> excerpt p = excerpt_of 150 (raw_content r)"
  by (auto simp: to_post_def split: option.splits if_splits)

lemma to_post_wf: "to_post r = Some p \<Longrightarrow> post_wf p"
  by (auto simp: to_post_def post_wf_def split: option.splits if_splits)

lemma build_index_wf: "p \<in> set (getAllPosts (fst (build_index raws))) \<Longrightarrow> post_wf p"
  by (auto simp: build_index_index_of index_of_simps set_sort_posts dest!: load_posts_valid intro: to_post_wf)

text \<open>The definitions a concrete run of the pipeline unfolds, for evaluation by \<open>simp\<close>.\<close>

lemmas posts_eval = build_index_index_of fst_load_posts_Cons to_post_def tag_set_def valid_date_def
  days_in_month_def index_of_def getPostBySlug_def getAllPosts_def getPostsByTag_def
  getAllTags_def getAllSlugs_def post_before_def reading_time_def word_count_def is_space_def
  excerpt_of_def truncate_utf8_def md_syntax_char_def

end
