(* ===== verification/Render.thy ===== *)
theory Render
  imports Prelude
begin

text \<open>
  \<open>markdownToHtml\<close> of \<open>@/lib/posts\<close>, modelled from the specification (section 4.2):
  a pure function from markdown to HTML whose output is safe to embed with
  \<open>dangerouslySetInnerHTML\<close> (\<open>src/app/posts/[slug]/page.tsx\<close>). The model keeps only
  the structure the safety argument needs: the body is split into paragraphs at blank
  lines, each paragraph is HTML-escaped (\<open>& < > " '\<close>) and wrapped in \<open><p>\<close>. Markdown
  inline syntax is not interpreted. The lemma shows that escaped text holds no \<open><\<close>
  or \<open>>\<close>.
\<close>

fun split_paras :: "string \<Rightarrow> string \<Rightarrow> string list" where
  "split_paras cur [] = [rev cur]"
| "split_paras cur [c] = [rev (c # cur)]"
| "split_paras cur (c # d # cs) =
     (if c = CHR 0x0A \<and> d = CHR 0x0A then rev cur # split_paras [] cs
      else split_paras (c # cur) (d # cs))"

definition md_paragraphs :: "string \<Rightarrow> string list" where
  "md_paragraphs md = filter (\<lambda>p. p \<noteq> []) (split_paras [] md)"

fun html_escape_char :: "char \<Rightarrow> string" where
  "html_escape_char c =
     (if c = CHR ''&'' then ''&amp;''
      else if c = CHR ''<'' then ''&lt;''
      else if c = CHR ''>'' then ''&gt;''
      else if c = CHR 0x22 then ''&quot;''
      else if c = CHR 0x27 then ''&#39;''
      else [c])"

definition html_escape :: "string \<Rightarrow> string" where
  "html_escape s = concat (map html_escape_char s)"

definition markdownToHtml :: "string \<Rightarrow> string" where
  "markdownToHtml md = concat (map (\<lambda>p. ''<p>'' @ html_escape p @ ''</p>'') (md_paragraphs md))"

section \<open>Lemmas\<close>

lemma html_escape_no_markup:
  "CHR ''<'' \<notin> set (html_escape s) \<and> CHR ''>'' \<notin> set (html_escape s)"
  by (induction s) (auto simp: html_escape_def)

end
