(* ===== verification/Pages.thy ===== *)
theory Pages
  imports Search Posts Render
begin

text \<open>
  The three routes of the app directory, each a function from the index (and the route
  parameter) to what the page renders:
  \<^item> \<open>Home\<close> (\<open>src/app/page.tsx\<close>): the search bar over all posts, the tag cloud when
    there are tags, the post cards or the empty state;
  \<^item> \<open>PostPage\<close> and its \<open>generateStaticParams\<close> (\<open>src/app/posts/[slug]/page.tsx\<close>):
    the parameter is passed through \<open>decodeURIComponent\<close>, an unknown slug is
    \<open>notFound()\<close>, the body is rendered by \<open>markdownToHtml\<close>;
  \<^item> \<open>TagPage\<close> and its \<open>generateStaticParams\<close> (\<open>src/app/tags/[tag]/page.tsx\<close>):
    the parameter is used as it arrives, and the page is \<open>notFound()\<close> only when the tag
    has no posts and is not a known tag.
  Each page is split the way its source is: the query calls (\<open>Home\<close>, \<open>PostPage\<close>,
  \<open>TagPage\<close> on an index) and the JSX over their results (\<open>home_render\<close>,
  \<open>post_render\<close>, \<open>tag_render\<close>), so that \<open>Site\<close> can run the same renders over
  answers that come through the shared cache.
  Markup, classes and icons are left out; what a page shows is kept as data: texts,
  link targets, which chip is highlighted, and what a \<open>{x && ...}\<close> expression renders.
  \<open>formatDate\<close> (\<open>@/lib/utils\<close>) is not modelled: cards carry the raw date.
\<close>

datatype page_error = NotFound | URIError

text \<open>
  \<open>{post.readingTime && <span>...</span>}\<close>: React renders nothing for
  \<open>undefined\<close>, the text \<open>0\<close> for the number 0, and the badge otherwise.
\<close>

datatype reading_badge = NoBadge | ZeroText | MinutesBadge nat

definition reading_badge_of :: "nat option \<Rightarrow> reading_badge" where
  "reading_badge_of rt = (case rt of None \<Rightarrow> NoBadge | Some n \<Rightarrow> if n = 0 then ZeroText else MinutesBadge n)"

definition post_href :: "string \<Rightarrow> url" where
  "post_href s = ''/posts/'' @ s"

definition tag_href :: "string \<Rightarrow> url" where
  "tag_href t = ''/tags/'' @ t"

section \<open>Home\<close>

text \<open>The props \<open>SearchBar\<close> reads from a \<open>Post\<close>.\<close>

definition to_search_post :: "post \<Rightarrow> search_post" where
  "to_search_post p =
     \<lparr>sp_slug = slug p, sp_title = title p, sp_excerpt = excerpt p, sp_date = date p, sp_tags = tags p\<rparr>"

record post_card =
  card_key :: string
  card_href :: url
  card_title :: string
  card_excerpt :: string
  card_date :: string
  card_reading :: reading_badge
  card_tags :: "(string \<times> bool) list"

text \<open>A post card; on the tag page the chip of the current tag is highlighted.\<close>

definition post_card_of :: "string option \<Rightarrow> post \<Rightarrow> post_card" where
  "post_card_of cur p =
     \<lparr>card_key = slug p, card_href = post_href (slug p), card_title = title p, card_excerpt = excerpt p,
      card_date = date p, card_reading = reading_badge_of (readingTime p),
      card_tags = map (\<lambda>t. (t, cur = Some t)) (tags p)\<rparr>"

datatype home_body = NoPostsYet url | PostCards "post_card list"

record home_view =
  home_search :: "search_post list"
  home_tag_cloud :: "(url \<times> string) list option"
  home_body :: home_body

text \<open>The JSX of \<open>Home\<close>, over the results of its two queries.\<close>

definition home_render :: "post list \<Rightarrow> string list \<Rightarrow> home_view" where
  "home_render posts tgs =
     \<lparr>home_search = map to_search_post posts,
      home_tag_cloud = (if tgs = [] then None else Some (map (\<lambda>t. (tag_href t, t)) tgs)),
      home_body = (if posts = [] then NoPostsYet ''/posts/new''
                   else PostCards (map (post_card_of None) posts))\<rparr>"

definition Home :: "post_index \<Rightarrow> home_view" where
  "Home ix = (let posts = getAllPosts ix; tgs = getAllTags ix in home_render posts tgs)"

section \<open>Post page\<close>

record post_view =
  pv_title :: string
  pv_date :: string
  pv_reading :: reading_badge
  pv_tags :: "(url \<times> string) list"
  pv_html :: string

definition post_view_of :: "post \<Rightarrow> post_view" where
  "post_view_of p =
     \<lparr>pv_title = title p, pv_date = date p, pv_reading = reading_badge_of (readingTime p),
      pv_tags = map (\<lambda>t. (tag_href t, t)) (tags p), pv_html = markdownToHtml (content p)\<rparr>"

text \<open>What \<open>PostPage\<close> does with the result of its query: \<open>notFound()\<close> or the post.\<close>

definition post_render :: "post option \<Rightarrow> page_error + post_view" where
  "post_render r = (case r of None \<Rightarrow> Inl NotFound | Some p \<Rightarrow> Inr (post_view_of p))"

definition PostPage :: "post_index \<Rightarrow> string \<Rightarrow> page_error + post_view" where
  "PostPage ix param =
     (case decode_uri_component param of
        None \<Rightarrow> Inl URIError
      | Some s \<Rightarrow> post_render (getPostBySlug ix s))"

definition post_static_params :: "post_index \<Rightarrow> string list" where
  "post_static_params ix = getAllSlugs ix"

section \<open>Tag page\<close>

text \<open>A chip of the list of all tags: a link to the tag's page, highlighted for the current tag.\<close>

record tag_chip =
  chip_key :: string
  chip_href :: url
  chip_tag :: string
  chip_active :: bool

definition tag_chip_of :: "string \<Rightarrow> string \<Rightarrow> tag_chip" where
  "tag_chip_of tag t = \<lparr>chip_key = t, chip_href = tag_href t, chip_tag = t, chip_active = (t = tag)\<rparr>"

record tag_view =
  tv_tag :: string
  tv_count :: nat
  tv_all_tags :: "tag_chip list"
  tv_posts :: "post_card list"

text \<open>The guard and the JSX of \<open>TagPage\<close>, over the results of its two queries.\<close>

definition tag_render :: "string \<Rightarrow> post list \<Rightarrow> string list \<Rightarrow> page_error + tag_view" where
  "tag_render tag posts allTags =
     (if posts = [] \<and> tag \<notin> set allTags then Inl NotFound
      else Inr \<lparr>tv_tag = tag, tv_count = length posts,
                tv_all_tags = map (tag_chip_of tag) allTags,
                tv_posts = map (post_card_of (Some tag)) posts\<rparr>)"

definition TagPage :: "post_index \<Rightarrow> string \<Rightarrow> page_error + tag_view" where
  "TagPage ix tag = (let posts = getPostsByTag ix tag; allTags = getAllTags ix in tag_render tag posts allTags)"

definition tag_static_params :: "post_index \<Rightarrow> string list" where
  "tag_static_params ix = getAllTags ix"


section \<open>React keys\<close>

text \<open>
  The \<open>key\<close> of a post card is the post's slug (\<open>key={post.slug}\<close>), the same as its
  link target up to the injective \<open>post_href\<close>; its tag chips are keyed by the tag.
\<close>

definition card_keys_ok :: "post_card list \<Rightarrow> bool" where
  "card_keys_ok cs \<longleftrightarrow> distinct (map card_key cs) \<and> (\<forall>c \<in> set cs. distinct (map fst (card_tags c)))"

section \<open>Fixtures\<close>

text \<open>The two records of the scenario of the specification (section 8).\<close>

abbreviation scenario_raws :: "raw_post list" where
  "scenario_raws \<equiv>
     [\<lparr>raw_slug = Some ''a'', raw_title = Some ''Go notes'', raw_date = Some ''2024-01-01'',
       raw_tags = [''go''], raw_content = ''hello world''\<rparr>,
      \<lparr>raw_slug = Some ''b'', raw_title = Some ''Rust and Go'', raw_date = Some ''2024-02-01'',
       raw_tags = [''rust'', ''go''], raw_content = ''x''\<rparr>]"

section \<open>Lemmas\<close>

lemmas pages_eval = Home_def home_render_def PostPage_def post_render_def TagPage_def tag_render_def post_view_of_def post_card_of_def
  tag_chip_of_def to_search_post_def reading_badge_of_def post_href_def tag_href_def

lemma tag_page_index_of:
  "TagPage (index_of ps) t =
     (if t \<in> set (getAllTags (index_of ps))
      then Inr \<lparr>tv_tag = t, tv_count = length (filter (\<lambda>p. t \<in> set (tags p)) (getAllPosts (index_of ps))),
                tv_all_tags = map (tag_chip_of t) (getAllTags (index_of ps)),
                tv_posts = map (post_card_of (Some t)) (filter (\<lambda>p. t \<in> set (tags p)) (getAllPosts (index_of ps)))\<rparr>
      else Inl NotFound)"
  using tag_known_iff_posts [of t ps]
  by (auto simp: TagPage_def tag_render_def Let_def index_of_simps(4) index_of_simps(1))

lemma post_render_slug:
  assumes "distinct (map slug ps)" and "p \<in> set ps"
  shows "post_render (getPostBySlug (index_of ps) (slug p)) = Inr (post_view_of p)"
proof -
  from assms have "getPostBySlug (index_of ps) (slug p) = Some p" by (simp add: getPostBySlug_index_of)
  then show ?thesis by (simp add: post_render_def)
qed

lemma load_posts_distinct: "distinct (map slug (fst (load_posts 0 [] raws)))"
  using load_posts_slugs by blast

lemma build_index_slugs_distinct: "distinct (map slug (getAllPosts (fst (build_index raws))))"
  using load_posts_distinct [of raws]
  by (simp add: build_index_index_of index_of_simps distinct_slugs_sort_posts)

lemma build_index_tags_distinct: "p \<in> set (getAllPosts (fst (build_index raws))) \<Longrightarrow> distinct (tags p)"
  using build_index_wf by (auto simp: post_wf_def)

lemma card_keys_ok_map:
  assumes "distinct (map slug ps)" and "\<forall>p \<in> set ps. distinct (tags p)"
  shows "card_keys_ok (map (post_card_of cur) ps)"
  using assms by (auto simp: card_keys_ok_def post_card_of_def comp_def)

lemma search_view_keys:
  assumes "search_view posts s = SearchDialog q items"
  shows "map item_key items = map sp_slug (filtered_posts posts q) \<and>
         (\<forall>it \<in> set items. \<exists>p \<in> set posts. item_tags it = take 3 (sp_tags p))"
proof -
  let ?fp = "filtered_posts posts (query s)"
  from assms have q: "q = query s"
    and it: "items = map (\<lambda>(i, p). search_item_of (selected_index s) i p) (enumerate 0 ?fp)"
    by (auto simp: search_view_def split: if_splits)
  have h: "map item_key (map (\<lambda>(i, p). search_item_of sel i p) (enumerate n ps)) =
           map sp_slug ps" for sel n ps
    by (induction ps arbitrary: n) (simp_all add: search_item_of_def)
  have t: "\<exists>p \<in> set ps. item_tags x = take 3 (sp_tags p)"
    if "x \<in> set (map (\<lambda>(i, p). search_item_of sel i p) (enumerate n ps))" for x sel n ps
    using that by (auto simp: search_item_of_def in_set_enumerate_eq intro!: bexI [OF _ nth_mem])
  have sub: "set ?fp \<subseteq> set posts" by (auto simp: filtered_posts_def)
  show ?thesis
  proof
    show "map item_key items = map sp_slug (filtered_posts posts q)"
      using h it q by simp
    show "\<forall>it \<in> set items. \<exists>p \<in> set posts. item_tags it = take 3 (sp_tags p)"
      using t it sub by blast
  qed
qed

lemma getPostBySlug_build_index_post:
  "p \<in> set (getAllPosts (fst (build_index raws))) \<Longrightarrow> getPostBySlug (fst (build_index raws)) (slug p) = Some p"
  using load_posts_distinct [of raws]
  by (simp add: build_index_index_of index_of_simps getPostBySlug_index_of set_sort_posts)

lemma getPostBySlug_build_index_mem:
  "getPostBySlug (fst (build_index raws)) s = Some p \<Longrightarrow> p \<in> set (getAllPosts (fst (build_index raws)))"
  using load_posts_distinct [of raws]
  by (simp add: build_index_index_of getPostBySlug_index_of index_of_simps set_sort_posts)

lemma tag_page_keys:
  assumes "TagPage (fst (build_index raws)) t = Inr tv"
  shows "distinct (map chip_key (tv_all_tags tv)) \<and> card_keys_ok (tv_posts tv)"
proof -
  let ?ix = "fst (build_index raws)"
  have bt: "getPostsByTag ?ix t = filter (\<lambda>p. t \<in> set (tags p)) (getAllPosts ?ix)"
    by (simp add: build_index_index_of index_of_simps)
  have "distinct (map slug (getPostsByTag ?ix t))"
    using build_index_slugs_distinct [of raws] by (simp add: bt distinct_map_filter)
  moreover have "\<forall>p \<in> set (getPostsByTag ?ix t). distinct (tags p)"
    by (auto simp: bt intro: build_index_tags_distinct)
  ultimately have "card_keys_ok (map (post_card_of (Some t)) (getPostsByTag ?ix t))" by (rule card_keys_ok_map)
  moreover have "distinct (getAllTags ?ix)" by (simp add: build_index_index_of getAllTags_index_of)
  ultimately show ?thesis using assms
    by (auto simp: TagPage_def tag_render_def Let_def comp_def tag_chip_of_def split: if_splits)
qed

lemma post_page_keys:
  assumes "PostPage (fst (build_index raws)) seg = Inr pv"
  shows "distinct (map snd (pv_tags pv))"
proof -
  from assms obtain s p where sp: "getPostBySlug (fst (build_index raws)) s = Some p" "pv = post_view_of p"
    by (auto simp: PostPage_def post_render_def split: option.splits)
  from getPostBySlug_build_index_mem [OF sp(1)] have "distinct (tags p)" by (rule build_index_tags_distinct)
  with sp(2) show ?thesis by (simp add: post_view_of_def comp_def)
qed

lemma search_dialog_keys:
  assumes "search_view snap s = SearchDialog q items"
    and "distinct (map sp_slug snap)" and "\<forall>p \<in> set snap. distinct (sp_tags p)"
  shows "distinct (map item_key items) \<and> (\<forall>it \<in> set items. distinct (item_tags it))"
proof -
  have "distinct (map sp_slug (filtered_posts snap q))"
    using assms(2) by (simp add: filtered_posts_def distinct_map_filter)
  with search_view_keys [OF assms(1)] assms(3) show ?thesis by (auto intro: distinct_take)
qed

text \<open>
  C8. The post page refines the specification of the content pipeline: requesting the
  URL of slug \<open>s\<close> shows the first valid record of the store with that slug (later
  duplicates and malformed records are skipped), and is \<open>notFound()\<close> when there is none.
\<close>

theorem post_page_first_seen:
  "PostPage (fst (build_index raws)) (encode_uri_component s) =
     (case find (\<lambda>p. slug p = s) (List.map_filter to_post raws) of
        None \<Rightarrow> Inl NotFound
      | Some p \<Rightarrow> Inr (post_view_of p))"
  by (simp add: PostPage_def post_render_def decode_encode_uri_component getPostBySlug_build_index)

text \<open>
  C9. The tag page of a built index: a known tag shows exactly the posts carrying it, in
  the order of the home page, with its chip highlighted; any other tag is \<open>notFound()\<close>,
  so the page's empty-list branch is never rendered.
\<close>

theorem tag_page_contract:
  "TagPage (fst (build_index raws)) t =
     (if t \<in> set (getAllTags (fst (build_index raws)))
      then Inr \<lparr>tv_tag = t,
                tv_count = length (filter (\<lambda>p. t \<in> set (tags p)) (getAllPosts (fst (build_index raws)))),
                tv_all_tags = map (tag_chip_of t) (getAllTags (fst (build_index raws))),
                tv_posts = map (post_card_of (Some t))
                  (filter (\<lambda>p. t \<in> set (tags p)) (getAllPosts (fst (build_index raws))))\<rparr>
      else Inl NotFound) \<and>
   (t \<in> set (getAllTags (fst (build_index raws))) \<longleftrightarrow>
      filter (\<lambda>p. t \<in> set (tags p)) (getAllPosts (fst (build_index raws))) \<noteq> [])"
  using tag_known_iff_posts [of t "fst (load_posts 0 [] raws)"]
  by (simp add: build_index_index_of tag_page_index_of index_of_simps(1,4))

text \<open>
  C10. The home page hands the search bar every post of the index, newest first with ties
  by slug, and no two with the same slug.
\<close>

theorem home_index:
  "sorted_wrt post_before (getAllPosts (fst (build_index raws))) \<and>
   home_search (Home (fst (build_index raws))) = map to_search_post (getAllPosts (fst (build_index raws))) \<and>
   distinct (map sp_slug (home_search (Home (fst (build_index raws)))))"
  using load_posts_distinct [of raws]
  by (simp add: Home_def home_render_def Let_def build_index_index_of index_of_simps sorted_sort_posts
      distinct_slugs_sort_posts comp_def to_search_post_def)

text \<open>
  C11. A post page never shows the stray text \<open>0\<close> that \<open>{post.readingTime && ...}\<close>
  renders for a zero reading time: the pipeline gives no reading time or a positive one.
\<close>

theorem reading_badge_no_zero:
  "PostPage (fst (build_index raws)) seg = Inr v \<Longrightarrow> pv_reading v \<noteq> ZeroText"
proof -
  assume "PostPage (fst (build_index raws)) seg = Inr v"
  then obtain s p where "getPostBySlug (fst (build_index raws)) s = Some p" and v: "v = post_view_of p"
    by (auto simp: PostPage_def post_render_def split: option.splits)
  then obtain r where "to_post r = Some p"
    using getPostBySlug_build_index_raw by blast
  then have "readingTime p = reading_time (raw_content r)"
    by (auto simp: to_post_def split: option.splits if_splits)
  then show ?thesis
    using reading_time_Some [of "raw_content r"]
    by (cases "reading_time (raw_content r)") (auto simp: v post_view_of_def reading_badge_of_def)
qed

theorem reading_badge_no_zero_witness:
  "PostPage (fst (build_index scenario_raws)) ''a'' =
     Inr (post_view_of \<lparr>slug = ''a'', title = ''Go notes'', date = ''2024-01-01'', tags = [''go''],
            excerpt = ''hello world'', content = ''hello world'', readingTime = Some 1\<rparr>) \<and>
   pv_reading (post_view_of \<lparr>slug = ''a'', title = ''Go notes'', date = ''2024-01-01'', tags = [''go''],
            excerpt = ''hello world'', content = ''hello world'', readingTime = Some 1\<rparr>) \<noteq> ZeroText"
proof -
  have e: "PostPage (fst (build_index scenario_raws)) ''a'' =
     Inr (post_view_of \<lparr>slug = ''a'', title = ''Go notes'', date = ''2024-01-01'', tags = [''go''],
            excerpt = ''hello world'', content = ''hello world'', readingTime = Some 1\<rparr>)"
    by (simp add: PostPage_def post_render_def posts_eval Let_def)
  from e reading_badge_no_zero [OF e] show ?thesis by simp
qed


text \<open>
  C12. The empty state of the home page links to \<open>/posts/new\<close>, which the post route
  resolves as the slug \<open>new\<close>: with no posts that page is always \<open>notFound()\<close>.
\<close>

theorem home_empty_state_link_404:
  "home_body (Home (index_of ps)) = NoPostsYet u \<Longrightarrow>
   u = post_href ''new'' \<and> PostPage (index_of ps) ''new'' = Inl NotFound"
  by (auto simp: Home_def home_render_def Let_def index_of_simps sort_posts_Nil_iff post_href_def PostPage_def post_render_def
      posts_eval split: if_splits)

theorem home_empty_state_link_404_witness:
  "home_body (Home (index_of [])) = NoPostsYet (post_href ''new'') \<and>
   PostPage (index_of []) ''new'' = Inl NotFound"
proof -
  have h: "home_body (Home (index_of [])) = NoPostsYet ''/posts/new''"
    by (simp add: Home_def home_render_def posts_eval Let_def)
  from home_empty_state_link_404 [OF h] h show ?thesis by simp
qed

text \<open>
  The tag page does not decode its parameter: when the router hands it the
  percent-encoded segment of a tag that encoding changes (a space, a non-ASCII
  character), the page is \<open>notFound()\<close> although the tag exists.
\<close>

theorem tag_page_encoded_param:
  "encode_uri_component t \<notin> set (getAllTags (index_of ps)) \<Longrightarrow>
   TagPage (index_of ps) (encode_uri_component t) = Inl NotFound"
  by (simp add: tag_page_index_of)

theorem tag_page_encoded_param_witness:
  "TagPage (index_of [\<lparr>slug = ''a'', title = ''A'', date = ''2024-01-01'', tags = [''a b''], excerpt = [],
      content = [], readingTime = None\<rparr>]) (encode_uri_component ''a b'') = Inl NotFound \<and>
   ''a b'' \<in> set (getAllTags (index_of [\<lparr>slug = ''a'', title = ''A'', date = ''2024-01-01'', tags = [''a b''],
      excerpt = [], content = [], readingTime = None\<rparr>]))"
proof -
  let ?ps = "[\<lparr>slug = ''a'', title = ''A'', date = ''2024-01-01'', tags = [''a b''], excerpt = [],
      content = [], readingTime = None\<rparr>]"
  have enc: "encode_uri_component ''a b'' = ''a%20b''"
    by code_simp
  have k: "getAllTags (index_of ?ps) = [''a b'']"
    by (simp add: posts_eval Let_def)
  have "encode_uri_component ''a b'' \<notin> set (getAllTags (index_of ?ps))"
    by (simp add: enc k)
  from tag_page_encoded_param [OF this] k show ?thesis by simp
qed

lemma all_posts_from_raws:
  "p \<in> set (getAllPosts (fst (build_index raws))) \<Longrightarrow> \<exists>r \<in> set raws. to_post r = Some p"
  by (auto simp: build_index_index_of index_of_simps set_sort_posts dest: load_posts_valid)

text \<open>
  C20. Searching the home page's snapshot for a tag finds every post the tag page of that
  tag lists (the search bar and the tag pages agree on tags).
\<close>

theorem search_finds_tagged_posts:
  "p \<in> set (getPostsByTag (index_of ps) t) \<Longrightarrow>
   to_search_post p \<in> set (filtered_posts (home_search (Home (index_of ps))) t)"
  by (auto simp: index_of_simps Home_def home_render_def Let_def filtered_posts_def post_matches_def to_search_post_def
      js_simps list_ex_iff)

text \<open>
  C21. Every card of the home page is the card of a post of the site, and the excerpt it
  shows is a prefix of that post's first paragraph without markdown syntax, at most 150
  bytes long, and cut at a UTF-8 character boundary (not before a continuation byte).
\<close>

theorem card_excerpt_bounded:
  assumes "home_body (Home (fst (build_index raws))) = PostCards cards" and "c \<in> set cards"
  shows "\<exists>p \<in> set (getAllPosts (fst (build_index raws))). c = post_card_of None p \<and>
           prefix (card_excerpt c) (filter (\<lambda>ch. \<not> md_syntax_char ch) (first_paragraph (content p))) \<and>
           length (card_excerpt c) \<le> 150 \<and>
           (length (card_excerpt c) = 0 \<or>
            length (card_excerpt c) = length (filter (\<lambda>ch. \<not> md_syntax_char ch) (first_paragraph (content p))) \<or>
            (of_char (filter (\<lambda>ch. \<not> md_syntax_char ch) (first_paragraph (content p)) ! length (card_excerpt c)) :: nat)
              div 64 \<noteq> 2)"
proof -
  from assms obtain p where p: "p \<in> set (getAllPosts (fst (build_index raws)))" and c: "c = post_card_of None p"
    by (auto simp: Home_def home_render_def Let_def split: if_splits)
  from build_index_wf [OF p] have "card_excerpt c = excerpt_of 150 (content p)"
    by (simp add: c post_card_of_def post_wf_def)
  with excerpt_of_bounds [of 150 "content p"] p c show ?thesis by metis
qed

text \<open>
  C22. The tag chips of a rendered tag page: there is one chip per tag of the site, in the
  order of \<open>getAllTags\<close>; exactly one is highlighted, the chip of the page's own tag;
  and every chip's link is built from its own tag, not from the current page's.
\<close>

theorem tag_page_one_active_chip:
  assumes "TagPage (index_of ps) t = Inr v"
  shows "map chip_tag (tv_all_tags v) = getAllTags (index_of ps) \<and>
         filter chip_active (tv_all_tags v) = [tag_chip_of t t] \<and>
         (\<forall>c \<in> set (tv_all_tags v). chip_href c = tag_href (chip_tag c))"
proof -
  from assms have t: "t \<in> set (getAllTags (index_of ps))"
    and v: "tv_all_tags v = map (tag_chip_of t) (getAllTags (index_of ps))"
    by (auto simp: tag_page_index_of split: if_splits)
  have d: "distinct (getAllTags (index_of ps))" using getAllTags_index_of by blast
  have "filter chip_active (map (tag_chip_of t) xs) = (if t \<in> set xs then [tag_chip_of t t] else [])"
    if "distinct xs" for xs using that by (induction xs) (auto simp: filter_empty_conv tag_chip_of_def)
  with t v d have one: "filter chip_active (tv_all_tags v) = [tag_chip_of t t]" by simp
  have "map chip_tag (map (tag_chip_of t) xs) = xs" for xs by (induction xs) (simp_all add: tag_chip_of_def)
  with v one show ?thesis by (auto simp: tag_chip_of_def)
qed

theorem search_finds_tagged_posts_witness:
  "to_search_post \<lparr>slug = ''a'', title = ''Go notes'', date = ''2024-01-01'', tags = [''go''], excerpt = ''hello world'', content = ''hello world'', readingTime = Some 1\<rparr> \<in> set (filtered_posts (home_search (Home (index_of [\<lparr>slug = ''a'', title = ''Go notes'', date = ''2024-01-01'', tags = [''go''], excerpt = ''hello world'', content = ''hello world'', readingTime = Some 1\<rparr>]))) ''go'')"
proof -
  have "\<lparr>slug = ''a'', title = ''Go notes'', date = ''2024-01-01'', tags = [''go''], excerpt = ''hello world'', content = ''hello world'', readingTime = Some 1\<rparr> \<in> set (getPostsByTag (index_of [\<lparr>slug = ''a'', title = ''Go notes'', date = ''2024-01-01'', tags = [''go''], excerpt = ''hello world'', content = ''hello world'', readingTime = Some 1\<rparr>]) ''go'')"
    by (simp add: posts_eval Let_def)
  then show ?thesis by (rule search_finds_tagged_posts)
qed

theorem card_excerpt_bounded_witness:
  "\<exists>p \<in> set (getAllPosts (fst (build_index scenario_raws))). post_card_of None \<lparr>slug = ''a'', title = ''Go notes'', date = ''2024-01-01'', tags = [''go''], excerpt = ''hello world'', content = ''hello world'', readingTime = Some 1\<rparr> = post_card_of None p \<and>
     prefix (card_excerpt (post_card_of None \<lparr>slug = ''a'', title = ''Go notes'', date = ''2024-01-01'', tags = [''go''], excerpt = ''hello world'', content = ''hello world'', readingTime = Some 1\<rparr>)) (filter (\<lambda>ch. \<not> md_syntax_char ch) (first_paragraph (content p))) \<and>
     length (card_excerpt (post_card_of None \<lparr>slug = ''a'', title = ''Go notes'', date = ''2024-01-01'', tags = [''go''], excerpt = ''hello world'', content = ''hello world'', readingTime = Some 1\<rparr>)) \<le> 150 \<and>
     (length (card_excerpt (post_card_of None \<lparr>slug = ''a'', title = ''Go notes'', date = ''2024-01-01'', tags = [''go''], excerpt = ''hello world'', content = ''hello world'', readingTime = Some 1\<rparr>)) = 0 \<or>
      length (card_excerpt (post_card_of None \<lparr>slug = ''a'', title = ''Go notes'', date = ''2024-01-01'', tags = [''go''], excerpt = ''hello world'', content = ''hello world'', readingTime = Some 1\<rparr>)) = length (filter (\<lambda>ch. \<not> md_syntax_char ch) (first_paragraph (content p))) \<or>
      (of_char (filter (\<lambda>ch. \<not> md_syntax_char ch) (first_paragraph (content p)) ! length (card_excerpt (post_card_of None \<lparr>slug = ''a'', title = ''Go notes'', date = ''2024-01-01'', tags = [''go''], excerpt = ''hello world'', content = ''hello world'', readingTime = Some 1\<rparr>))) :: nat) div 64 \<noteq> 2)"
proof -
  have h: "home_body (Home (fst (build_index scenario_raws))) = PostCards [post_card_of None \<lparr>slug = ''b'', title = ''Rust and Go'', date = ''2024-02-01'', tags = [''rust'', ''go''], excerpt = ''x'', content = ''x'', readingTime = Some 1\<rparr>, post_card_of None \<lparr>slug = ''a'', title = ''Go notes'', date = ''2024-01-01'', tags = [''go''], excerpt = ''hello world'', content = ''hello world'', readingTime = Some 1\<rparr>]"
    by (simp add: Home_def home_render_def posts_eval Let_def)
  have "post_card_of None \<lparr>slug = ''a'', title = ''Go notes'', date = ''2024-01-01'', tags = [''go''], excerpt = ''hello world'', content = ''hello world'', readingTime = Some 1\<rparr> \<in> set [post_card_of None \<lparr>slug = ''b'', title = ''Rust and Go'', date = ''2024-02-01'', tags = [''rust'', ''go''], excerpt = ''x'', content = ''x'', readingTime = Some 1\<rparr>, post_card_of None \<lparr>slug = ''a'', title = ''Go notes'', date = ''2024-01-01'', tags = [''go''], excerpt = ''hello world'', content = ''hello world'', readingTime = Some 1\<rparr>]" by simp
  from card_excerpt_bounded [OF h this] show ?thesis .
qed

theorem tag_page_one_active_chip_witness:
  "(case TagPage (index_of [\<lparr>slug = ''a'', title = ''Go notes'', date = ''2024-01-01'', tags = [''go''], excerpt = ''hello world'', content = ''hello world'', readingTime = Some 1\<rparr>, \<lparr>slug = ''b'', title = ''Rust and Go'', date = ''2024-02-01'', tags = [''rust'', ''go''], excerpt = ''x'', content = ''x'', readingTime = Some 1\<rparr>]) ''go'' of Inr v \<Rightarrow> map chip_tag (tv_all_tags v) = [''go'', ''rust''] \<and> filter chip_active (tv_all_tags v) = [tag_chip_of ''go'' ''go''] | Inl e \<Rightarrow> False)"
proof -
  have g: "getAllTags (index_of [\<lparr>slug = ''a'', title = ''Go notes'', date = ''2024-01-01'', tags = [''go''], excerpt = ''hello world'', content = ''hello world'', readingTime = Some 1\<rparr>, \<lparr>slug = ''b'', title = ''Rust and Go'', date = ''2024-02-01'', tags = [''rust'', ''go''], excerpt = ''x'', content = ''x'', readingTime = Some 1\<rparr>]) = [''go'', ''rust'']"
    by (simp add: posts_eval Let_def)
  then obtain v where v: "TagPage (index_of [\<lparr>slug = ''a'', title = ''Go notes'', date = ''2024-01-01'', tags = [''go''], excerpt = ''hello world'', content = ''hello world'', readingTime = Some 1\<rparr>, \<lparr>slug = ''b'', title = ''Rust and Go'', date = ''2024-02-01'', tags = [''rust'', ''go''], excerpt = ''x'', content = ''x'', readingTime = Some 1\<rparr>]) ''go'' = Inr v"
    by (simp add: tag_page_index_of)
  from tag_page_one_active_chip [OF v] v g show ?thesis by simp
qed

text \<open>
  C24. The search dialog lists its results in the order of the home page: for every
  query, the results are the snapshot's posts that match, in the index order (newest
  first, then by slug), as a subsequence of \<open>getAllPosts\<close>.
\<close>

theorem search_results_in_home_order:
  "\<exists>ps. filtered_posts (home_search (Home (fst (build_index raws)))) q = map to_search_post ps \<and>
        sorted_wrt post_before ps \<and> subseq ps (getAllPosts (fst (build_index raws)))"
proof -
  let ?all = "getAllPosts (fst (build_index raws))"
  let ?ps = "filter (\<lambda>p. post_matches q (to_search_post p)) ?all"
  have "filtered_posts (home_search (Home (fst (build_index raws)))) q = map to_search_post ?ps"
    by (simp add: filtered_posts_def Home_def home_render_def Let_def filter_map comp_def)
  moreover have "sorted_wrt post_before ?ps"
    by (simp add: build_index_index_of index_of_simps sorted_sort_posts sorted_wrt_filter)
  moreover have "subseq ?ps ?all" by simp
  ultimately show ?thesis by blast
qed

text \<open>
  C29. The data the server hands to the client is well typed: every entry of the search
  snapshot of the home page has a non-empty slug and title, a date that is a valid
  calendar date, and an excerpt of at most 150 bytes, as the \<open>SearchPost\<close> interface
  and the post schema of the specification require.
\<close>

theorem search_snapshot_wf:
  "\<forall>sp \<in> set (home_search (Home (fst (build_index raws)))).
     sp_slug sp \<noteq> [] \<and> sp_title sp \<noteq> [] \<and> valid_date (sp_date sp) \<and> length (sp_excerpt sp) \<le> 150"
proof
  fix sp assume "sp \<in> set (home_search (Home (fst (build_index raws))))"
  then obtain p where p: "p \<in> set (getAllPosts (fst (build_index raws)))" and sp: "sp = to_search_post p"
    by (auto simp: Home_def home_render_def Let_def)
  from p have "post_wf p" by (rule build_index_wf)
  moreover have "length (excerpt_of 150 (content p)) \<le> 150" using excerpt_of_bounds by blast
  ultimately show "sp_slug sp \<noteq> [] \<and> sp_title sp \<noteq> [] \<and> valid_date (sp_date sp) \<and> length (sp_excerpt sp) \<le> 150"
    using sp by (simp add: post_wf_def to_search_post_def)
qed

theorem search_snapshot_wf_witness:
  "''b'' \<noteq> [] \<and> ''Rust and Go'' \<noteq> [] \<and> valid_date ''2024-02-01'' \<and> length ''x'' \<le> 150"
proof -
  have "\<lparr>sp_slug = ''b'', sp_title = ''Rust and Go'', sp_excerpt = ''x'', sp_date = ''2024-02-01'', sp_tags = [''rust'', ''go'']\<rparr>
        \<in> set (home_search (Home (fst (build_index scenario_raws))))"
    by (simp add: pages_eval posts_eval Let_def)
  from bspec [OF search_snapshot_wf this] show ?thesis by simp
qed

text \<open>
  C30. Round trip of the static post routes: rendering the post page at the encoded
  form of every parameter \<open>generateStaticParams\<close> returns gives exactly the pages of
  all posts, in the index order.
\<close>

theorem static_routes_roundtrip:
  "map (PostPage (fst (build_index raws)) \<circ> encode_uri_component) (post_static_params (fst (build_index raws))) =
   map (Inr \<circ> post_view_of) (getAllPosts (fst (build_index raws)))"
proof -
  let ?ps = "fst (load_posts 0 [] raws)"
  have d: "distinct (map slug ?ps)" by (rule load_posts_distinct)
  have "PostPage (index_of ?ps) (encode_uri_component (slug p)) = Inr (post_view_of p)" if "p \<in> set (sort_posts ?ps)" for p
    using that d by (simp add: PostPage_def decode_encode_uri_component set_sort_posts post_render_slug [OF d])
  then show ?thesis
    by (simp add: build_index_index_of post_static_params_def index_of_simps)
qed

text \<open>
  C15. React keys are unique among siblings in every list the site renders. The keys are
  the source's \<open>key\<close> props: \<open>card_key\<close> (\<open>key={post.slug}\<close>) of the post cards of the
  home and tag pages, \<open>item_key\<close> (\<open>key={post.slug}\<close>) of the search dialog's rows,
  \<open>chip_key\<close> (\<open>key={t}\<close>) of the tag page's chips; the lists whose elements are keyed by the
  tag they show (\<open>key={tag}\<close>: the tag cloud, the chips of a card, of a search row and of a
  post page) are keyed by that tag component. The search snapshot is keyed by slug too.
  Two siblings with one key would make React merge or drop rows.
\<close>

theorem react_keys_unique:
  "distinct (map sp_slug (home_search (Home (fst (build_index raws))))) \<and>
   (home_tag_cloud (Home (fst (build_index raws))) = Some cl \<longrightarrow> distinct (map snd cl)) \<and>
   (home_body (Home (fst (build_index raws))) = PostCards cs \<longrightarrow> card_keys_ok cs) \<and>
   (TagPage (fst (build_index raws)) t = Inr tv \<longrightarrow>
      distinct (map chip_key (tv_all_tags tv)) \<and> card_keys_ok (tv_posts tv)) \<and>
   (PostPage (fst (build_index raws)) seg = Inr pv \<longrightarrow> distinct (map snd (pv_tags pv))) \<and>
   (search_view (home_search (Home (fst (build_index raws)))) s = SearchDialog q items \<longrightarrow>
      distinct (map item_key items) \<and> (\<forall>it \<in> set items. distinct (item_tags it)))"
proof -
  let ?ix = "fst (build_index raws)"
  have d: "distinct (map slug (getAllPosts ?ix))" by (rule build_index_slugs_distinct)
  have dt: "\<forall>p \<in> set (getAllPosts ?ix). distinct (tags p)" using build_index_tags_distinct by blast
  have k1: "distinct (map sp_slug (home_search (Home ?ix)))"
    using d by (simp add: Home_def home_render_def Let_def to_search_post_def comp_def)
  have k2: "\<forall>p \<in> set (home_search (Home ?ix)). distinct (sp_tags p)"
    using dt by (auto simp: Home_def home_render_def Let_def to_search_post_def)
  have "home_tag_cloud (Home ?ix) = Some cl \<longrightarrow> distinct (map snd cl)"
    by (auto simp: Home_def home_render_def Let_def comp_def build_index_index_of getAllTags_index_of)
  moreover have "home_body (Home ?ix) = PostCards cs \<longrightarrow> card_keys_ok cs"
    using card_keys_ok_map [OF d dt] by (auto simp: Home_def home_render_def Let_def)
  ultimately show ?thesis using k1 k2 tag_page_keys post_page_keys search_dialog_keys by blast
qed

theorem react_keys_unique_witness:
  "distinct (map snd [(''/tags/go'', ''go''), (''/tags/rust'', ''rust'')])"
proof -
  have "home_tag_cloud (Home (fst (build_index scenario_raws))) = Some [(''/tags/go'', ''go''), (''/tags/rust'', ''rust'')]"
    by (simp add: pages_eval posts_eval Let_def)
  with react_keys_unique [of scenario_raws "[(''/tags/go'', ''go''), (''/tags/rust'', ''rust'')]"]
  show ?thesis by blast
qed

end
