(* ===== verification/Site.thy ===== *)
theory Site
  imports Pages
begin

text \<open>
  The server side of the site as a whole: page handlers that run concurrently in one
  process and share the module-level index of \<open>@/lib/posts\<close>. Each handler is the
  straight-line program of its page (\<open>src/app/page.tsx\<close>,
  \<open>src/app/posts/[slug]/page.tsx\<close>, \<open>src/app/tags/[tag]/page.tsx\<close>): it calls the
  queries of its page in the order the source calls them, every call going through the
  build-once cache (\<open>run_query\<close>), and renders from the answers with the page's JSX
  (\<open>home_render\<close>, \<open>post_render\<close>, \<open>tag_render\<close>). A query call is atomic (the query
  functions are synchronous); between any two calls of a handler, other handlers may
  run, new requests may arrive, and the content store may change. This allows every
  interleaving the event loop allows (it switches handlers only at \<open>await\<close>) and more.
\<close>

datatype request = HomeReq | PostReq string | TagReq string

datatype page = HomePg home_view | PostPg post_view | TagPg tag_view

datatype response = Fatal load_error | Failed page_error | Rendered page

section \<open>Handlers as query programs\<close>

text \<open>
  The query calls of each page, in source order. The post page decodes its parameter
  first: when \<open>decodeURIComponent\<close> throws, no query is made.
\<close>

definition home_queries :: "query_op list" where
  "home_queries = [GetAllPosts, GetAllTags]"

definition post_queries :: "string \<Rightarrow> query_op list" where
  "post_queries seg = (case decode_uri_component seg of None \<Rightarrow> [] | Some s \<Rightarrow> [GetPostBySlug s])"

definition tag_queries :: "string \<Rightarrow> query_op list" where
  "tag_queries tag = [GetPostsByTag tag, GetAllTags]"

text \<open>The router: a request runs the program of its page.\<close>

fun request_queries :: "request \<Rightarrow> query_op list" where
  "request_queries HomeReq = home_queries"
| "request_queries (PostReq seg) = post_queries seg"
| "request_queries (TagReq tag) = tag_queries tag"

definition of_page_result :: "('a \<Rightarrow> page) \<Rightarrow> page_error + 'a \<Rightarrow> response" where
  "of_page_result f r = (case r of Inl e \<Rightarrow> Failed e | Inr v \<Rightarrow> Rendered (f v))"

text \<open>
  Rendering from the answers. Answers of another shape than the query asked for cannot
  occur (\<open>answer_query\<close> answers each query with its own shape); the last equation
  gives them a value only to make the function total.
\<close>

fun render_answers :: "request \<Rightarrow> answer list \<Rightarrow> response" where
  "render_answers HomeReq [Posts ps, Tags ts] = Rendered (HomePg (home_render ps ts))"
| "render_answers (PostReq seg) [] = Failed URIError"
| "render_answers (PostReq seg) [MaybePost r] = of_page_result PostPg (post_render r)"
| "render_answers (TagReq tag) [Posts ps, Tags ts] = of_page_result TagPg (tag_render tag ps ts)"
| "render_answers r as = Failed NotFound"

text \<open>The reference: the page as a pure function of one index.\<close>

fun serve_page :: "post_index \<Rightarrow> request \<Rightarrow> response" where
  "serve_page ix HomeReq = Rendered (HomePg (Home ix))"
| "serve_page ix (PostReq seg) = of_page_result PostPg (PostPage ix seg)"
| "serve_page ix (TagReq tag) = of_page_result TagPg (TagPage ix tag)"

section \<open>Concurrent handlers and the shared cache\<close>

record handler =
  h_req :: request
  h_answers :: "answer list"
  h_result :: "response option"

record server =
  site_cache :: cache
  site_store :: "raw_post list option"
  site_handlers :: "handler list"

definition site_init :: "raw_post list option \<Rightarrow> server" where
  "site_init st = \<lparr>site_cache = Unbuilt, site_store = st, site_handlers = []\<rparr>"

definition new_handler :: "request \<Rightarrow> handler" where
  "new_handler r = \<lparr>h_req = r, h_answers = [], h_result = None\<rparr>"

text \<open>The next query handler \<open>h\<close> has to make, if any.\<close>

definition next_query :: "handler \<Rightarrow> query_op option" where
  "next_query h =
     (if h_result h = None \<and> length (h_answers h) < length (request_queries (h_req h))
      then Some (request_queries (h_req h) ! length (h_answers h)) else None)"

inductive site_step :: "server \<Rightarrow> server \<Rightarrow> bool" where
  arrive: "site_step s (s\<lparr>site_handlers := site_handlers s @ [new_handler r]\<rparr>)"
| query: "i < length (site_handlers s) \<Longrightarrow> next_query (site_handlers s ! i) = Some q \<Longrightarrow>
          run_query (site_store s) (site_cache s) q = Inr (a, c') \<Longrightarrow>
          site_step s (s\<lparr>site_cache := c',
            site_handlers := (site_handlers s)[i := (site_handlers s ! i)\<lparr>h_answers := h_answers (site_handlers s ! i) @ [a]\<rparr>]\<rparr>)"
| fail: "i < length (site_handlers s) \<Longrightarrow> next_query (site_handlers s ! i) = Some q \<Longrightarrow>
          run_query (site_store s) (site_cache s) q = Inl e \<Longrightarrow>
          site_step s (s\<lparr>site_handlers := (site_handlers s)[i := (site_handlers s ! i)\<lparr>h_result := Some (Fatal e)\<rparr>]\<rparr>)"
| finish: "i < length (site_handlers s) \<Longrightarrow> h_result (site_handlers s ! i) = None \<Longrightarrow>
          length (h_answers (site_handlers s ! i)) = length (request_queries (h_req (site_handlers s ! i))) \<Longrightarrow>
          site_step s (s\<lparr>site_handlers := (site_handlers s)[i :=
            (site_handlers s ! i)\<lparr>h_result := Some (render_answers (h_req (site_handlers s ! i)) (h_answers (site_handlers s ! i)))\<rparr>]\<rparr>)"
| edit: "site_step s (s\<lparr>site_store := st\<rparr>)"

inductive site_reachable :: "raw_post list option \<Rightarrow> server \<Rightarrow> bool" for st where
  init: "site_reachable st (site_init st)"
| step: "site_reachable st s \<Longrightarrow> site_step s s' \<Longrightarrow> site_reachable st s'"

section \<open>The invariant\<close>

text \<open>
  A handler is consistent with index \<open>ix\<close> when every answer it has is the answer of
  \<open>ix\<close> to the query it asked, and its response, once given, is the fatal load error or
  the page of \<open>ix\<close>.
\<close>

definition handler_ok :: "post_index \<Rightarrow> handler \<Rightarrow> bool" where
  "handler_ok ix h \<longleftrightarrow>
     h_answers h = map (answer_query ix) (take (length (h_answers h)) (request_queries (h_req h))) \<and>
     (case h_result h of None \<Rightarrow> True | Some r \<Rightarrow> r = Fatal ContentLoadError \<or> r = serve_page ix (h_req h))"

text \<open>Before the build no handler has an answer, and only handlers without queries are done.\<close>

definition handler_unbuilt :: "handler \<Rightarrow> bool" where
  "handler_unbuilt h \<longleftrightarrow>
     h_answers h = [] \<and>
     (case h_result h of None \<Rightarrow> True
      | Some r \<Rightarrow> r = Fatal ContentLoadError \<or> (request_queries (h_req h) = [] \<and> r = render_answers (h_req h) []))"

definition site_inv :: "server \<Rightarrow> bool" where
  "site_inv s \<longleftrightarrow>
     (case site_cache s of
        Unbuilt \<Rightarrow> list_all handler_unbuilt (site_handlers s)
      | Ready ix \<Rightarrow> list_all (handler_ok ix) (site_handlers s))"


section \<open>Fixture\<close>

text \<open>The index of an empty content store.\<close>

abbreviation empty_ix :: post_index where "empty_ix \<equiv> fst (build_index [])"

section \<open>Lemmas\<close>

lemmas page_queries = home_queries_def post_queries_def tag_queries_def

lemma render_answers_serve_page:
  "render_answers req (map (answer_query ix) (request_queries req)) = serve_page ix req"
  by (cases req) (auto simp: page_queries PostPage_def TagPage_def Home_def Let_def of_page_result_def
      split: option.splits)

lemma run_query_Unbuilt_Inr:
  "run_query src Unbuilt q = Inr (a, c') \<Longrightarrow>
   \<exists>raws. src = Some raws \<and> c' = Ready (fst (build_index raws)) \<and> a = answer_query (fst (build_index raws)) q"
  by (cases src) (auto simp: Let_def)

lemma run_query_Inl: "run_query src c q = Inl e \<Longrightarrow> c = Unbuilt \<and> src = None \<and> e = ContentLoadError"
  by (cases c; cases src; cases e) (auto simp: Let_def)

lemma list_all_update_keep:
  "list_all P xs \<Longrightarrow> P x \<Longrightarrow> list_all P (xs[i := x])"
  by (metis list_all_iff set_update_subset_insert insert_iff subsetD)

lemma list_all_mono_all: "list_all P xs \<Longrightarrow> (\<And>x. P x \<Longrightarrow> Q x) \<Longrightarrow> list_all Q xs"
  by (simp add: list.pred_mono_strong)

lemma next_query_Some:
  "next_query h = Some q \<longleftrightarrow>
   h_result h = None \<and> length (h_answers h) < length (request_queries (h_req h)) \<and>
   q = request_queries (h_req h) ! length (h_answers h)"
  by (auto simp: next_query_def)

lemma handler_ok_new: "handler_ok ix (new_handler r)" and handler_unbuilt_new: "handler_unbuilt (new_handler r)"
  by (simp_all add: handler_ok_def handler_unbuilt_def new_handler_def)

lemma handler_unbuilt_ok:
  "handler_unbuilt h \<Longrightarrow> handler_ok ix h"
  using render_answers_serve_page [of "h_req h" ix]
  by (auto simp: handler_unbuilt_def handler_ok_def split: option.splits)

lemma handler_ok_answer:
  assumes "handler_ok ix h" and "next_query h = Some q"
  shows "handler_ok ix (h\<lparr>h_answers := h_answers h @ [answer_query ix q]\<rparr>)"
proof -
  let ?qs = "request_queries (h_req h)" and ?n = "length (h_answers h)"
  from assms(2) have n: "?n < length ?qs" "q = ?qs ! ?n" "h_result h = None" by (auto simp: next_query_Some)
  from assms(1) have a: "h_answers h = map (answer_query ix) (take ?n ?qs)" by (simp add: handler_ok_def)
  have "take (Suc ?n) ?qs = take ?n ?qs @ [?qs ! ?n]" using n(1) by (simp add: take_Suc_conv_app_nth)
  with a n show ?thesis by (simp add: handler_ok_def)
qed

lemma handler_ok_finish:
  assumes "handler_ok ix h" and "length (h_answers h) = length (request_queries (h_req h))"
  shows "handler_ok ix (h\<lparr>h_result := Some (render_answers (h_req h) (h_answers h))\<rparr>)"
proof -
  from assms have "h_answers h = map (answer_query ix) (request_queries (h_req h))"
    by (simp add: handler_ok_def)
  with assms(1) show ?thesis by (simp add: handler_ok_def render_answers_serve_page)
qed

lemma site_step_inv:
  assumes "site_step s s'" and "site_inv s"
  shows "site_inv s'"
  using assms
proof (induction rule: site_step.induct)
  case (arrive s r)
  then show ?case by (auto simp: site_inv_def handler_ok_new handler_unbuilt_new split: cache.splits)
next
  case (query i s q a c')
  let ?h = "site_handlers s ! i"
  show ?case
  proof (cases "site_cache s")
    case Unbuilt
    from query.hyps(3) Unbuilt have "run_query (site_store s) Unbuilt q = Inr (a, c')" by simp
    then obtain raws where r: "site_store s = Some raws"
      "c' = Ready (fst (build_index raws))" "a = answer_query (fst (build_index raws)) q"
      by (blast dest: run_query_Unbuilt_Inr)
    let ?ix = "fst (build_index raws)"
    from query.prems Unbuilt have all: "list_all (handler_ok ?ix) (site_handlers s)"
      by (auto simp: site_inv_def elim: list_all_mono_all intro: handler_unbuilt_ok)
    with query.hyps(1) have "handler_ok ?ix ?h" by (simp add: list_all_length)
    with query.hyps(2) have "handler_ok ?ix (?h\<lparr>h_answers := h_answers ?h @ [a]\<rparr>)"
      using r(3) by (simp add: handler_ok_answer)
    with all r(2) show ?thesis by (simp add: site_inv_def list_all_update_keep)
  next
    case (Ready ix)
    with query.hyps(3) have r: "a = answer_query ix q" "c' = Ready ix" by auto
    from query.prems Ready have all: "list_all (handler_ok ix) (site_handlers s)" by (simp add: site_inv_def)
    with query.hyps(1) have "handler_ok ix ?h" by (simp add: list_all_length)
    with query.hyps(2) r(1) have "handler_ok ix (?h\<lparr>h_answers := h_answers ?h @ [a]\<rparr>)"
      by (simp add: handler_ok_answer)
    with all r(2) show ?thesis by (simp add: site_inv_def list_all_update_keep)
  qed
next
  case (fail i s q e)
  let ?h = "site_handlers s ! i"
  from fail.hyps(3) have c: "site_cache s = Unbuilt" "e = ContentLoadError" by (auto dest: run_query_Inl)
  from fail.prems c have all: "list_all handler_unbuilt (site_handlers s)" by (simp add: site_inv_def)
  with fail.hyps(1) have "handler_unbuilt ?h" by (simp add: list_all_length)
  then have "handler_unbuilt (?h\<lparr>h_result := Some (Fatal e)\<rparr>)" using c(2) by (simp add: handler_unbuilt_def)
  with all c(1) show ?case by (simp add: site_inv_def list_all_update_keep)
next
  case (finish i s)
  let ?h = "site_handlers s ! i"
  show ?case
  proof (cases "site_cache s")
    case Unbuilt
    from finish.prems Unbuilt have all: "list_all handler_unbuilt (site_handlers s)" by (simp add: site_inv_def)
    with finish.hyps(1) have "handler_unbuilt ?h" by (simp add: list_all_length)
    with finish.hyps(3) have "handler_unbuilt (?h\<lparr>h_result := Some (render_answers (h_req ?h) (h_answers ?h))\<rparr>)"
      by (simp add: handler_unbuilt_def)
    with all Unbuilt show ?thesis by (simp add: site_inv_def list_all_update_keep)
  next
    case (Ready ix)
    from finish.prems Ready have all: "list_all (handler_ok ix) (site_handlers s)" by (simp add: site_inv_def)
    with finish.hyps(1) have "handler_ok ix ?h" by (simp add: list_all_length)
    then have "handler_ok ix (?h\<lparr>h_result := Some (render_answers (h_req ?h) (h_answers ?h))\<rparr>)"
      using finish.hyps(3) by (rule handler_ok_finish)
    with all Ready show ?thesis by (simp add: site_inv_def list_all_update_keep)
  qed
next
  case (edit s st)
  then show ?case by (simp add: site_inv_def split: cache.splits)
qed

lemma site_reachable_inv: "site_reachable st s \<Longrightarrow> site_inv s"
proof (induction rule: site_reachable.induct)
  case init
  then show ?case by (simp add: site_inv_def site_init_def)
next
  case (step s s')
  then show ?case by (blast intro: site_step_inv)
qed


lemma site_step_cache:
  "site_step s s' \<Longrightarrow> site_cache s' = site_cache s \<or>
     (site_cache s = Unbuilt \<and> (\<exists>raws. site_store s = Some raws \<and> site_cache s' = Ready (fst (build_index raws))))"
proof (induction rule: site_step.induct)
  case (query i s q a c')
  then show ?case
  proof (cases "site_cache s")
    case Unbuilt
    with query.hyps(3) have "run_query (site_store s) Unbuilt q = Inr (a, c')" by simp
    with Unbuilt show ?thesis by (auto dest: run_query_Unbuilt_Inr)
  qed auto
qed auto





lemma site_step_queryI:
  "i < length (site_handlers s) \<Longrightarrow> next_query (site_handlers s ! i) = Some q \<Longrightarrow>
   run_query (site_store s) (site_cache s) q = Inr (a, c') \<Longrightarrow>
   s' = s\<lparr>site_cache := c',
          site_handlers := (site_handlers s)[i := (site_handlers s ! i)\<lparr>h_answers := h_answers (site_handlers s ! i) @ [a]\<rparr>]\<rparr> \<Longrightarrow>
   site_step s s'"
  by (simp add: site_step.query)

lemma site_step_finishI:
  "i < length (site_handlers s) \<Longrightarrow> h_result (site_handlers s ! i) = None \<Longrightarrow>
   length (h_answers (site_handlers s ! i)) = length (request_queries (h_req (site_handlers s ! i))) \<Longrightarrow>
   s' = s\<lparr>site_handlers := (site_handlers s)[i :=
            (site_handlers s ! i)\<lparr>h_result := Some (render_answers (h_req (site_handlers s ! i)) (h_answers (site_handlers s ! i)))\<rparr>]\<rparr> \<Longrightarrow>
   site_step s s'"
  by (simp add: site_step.finish)

lemma getAllPosts_empty: "getAllPosts empty_ix = []" and getAllTags_empty: "getAllTags empty_ix = []"
  by (simp_all add: build_index_index_of index_of_simps)

lemma site_first_query_empty:
  "site_step \<lparr>site_cache = Unbuilt, site_store = Some [], site_handlers = [new_handler HomeReq]\<rparr>
     \<lparr>site_cache = Ready empty_ix, site_store = Some [],
      site_handlers = [\<lparr>h_req = HomeReq, h_answers = [Posts []], h_result = None\<rparr>]\<rparr>"
  by (rule site_step_queryI [where i = 0 and q = GetAllPosts and a = "Posts []" and c' = "Ready empty_ix"])
     (simp_all add: next_query_def new_handler_def home_queries_def getAllPosts_empty)

lemma site_home_run_first:
  "site_reachable (Some [])
     \<lparr>site_cache = Ready empty_ix, site_store = Some [],
      site_handlers = [\<lparr>h_req = HomeReq, h_answers = [Posts []], h_result = None\<rparr>]\<rparr>"
proof -
  have "site_step (site_init (Some []))
          \<lparr>site_cache = Unbuilt, site_store = Some [], site_handlers = [new_handler HomeReq]\<rparr>"
    using site_step.arrive [of "site_init (Some [])" HomeReq] by (simp add: site_init_def)
  then have "site_reachable (Some [])
          \<lparr>site_cache = Unbuilt, site_store = Some [], site_handlers = [new_handler HomeReq]\<rparr>"
    by (rule site_reachable.step [OF site_reachable.init])
  then show ?thesis by (rule site_reachable.step [OF _ site_first_query_empty])
qed

lemma site_home_run_empty:
  "site_reachable (Some [])
     \<lparr>site_cache = Ready empty_ix, site_store = Some [],
      site_handlers = [\<lparr>h_req = HomeReq, h_answers = [Posts [], Tags []],
                        h_result = Some (Rendered (HomePg (home_render [] [])))\<rparr>]\<rparr>"
proof -
  let ?s2 = "\<lparr>site_cache = Ready empty_ix, site_store = Some [],
      site_handlers = [\<lparr>h_req = HomeReq, h_answers = [Posts []], h_result = None\<rparr>]\<rparr>"
  let ?s3 = "\<lparr>site_cache = Ready empty_ix, site_store = Some [],
      site_handlers = [\<lparr>h_req = HomeReq, h_answers = [Posts [], Tags []], h_result = None\<rparr>]\<rparr>"
  have r2: "site_reachable (Some []) ?s2" by (rule site_home_run_first)
  have "site_step ?s2 ?s3"
    by (rule site_step_queryI [where i = 0 and q = GetAllTags and a = "Tags []" and c' = "Ready empty_ix"])
       (simp_all add: next_query_def home_queries_def getAllTags_empty)
  with r2 have r3: "site_reachable (Some []) ?s3" by (rule site_reachable.step)
  have "site_step ?s3 \<lparr>site_cache = Ready empty_ix, site_store = Some [],
      site_handlers = [\<lparr>h_req = HomeReq, h_answers = [Posts [], Tags []],
                        h_result = Some (Rendered (HomePg (home_render [] [])))\<rparr>]\<rparr>"
    by (rule site_step_finishI [where i = 0]) (simp_all add: home_queries_def)
  with r3 show ?thesis by (rule site_reachable.step)
qed


text \<open>
  C25. Refinement: the concurrent server implements the pure pages. In every reachable
  state of the server, once the index is built as \<open>ix\<close>, every response a handler has
  given is the page of \<open>ix\<close> for its request (or the fatal load error), whatever the
  interleaving of the handlers and whatever changes the content store went through.
\<close>
theorem site_responses_refine:
  assumes "site_reachable st s" and "site_cache s = Ready ix"
    and "h \<in> set (site_handlers s)" and "h_result h = Some r"
  shows "r = Fatal ContentLoadError \<or> r = serve_page ix (h_req h)"
proof -
  from assms(1) have "site_inv s" by (rule site_reachable_inv)
  with assms(2,3) have "handler_ok ix h" by (simp add: site_inv_def list_all_iff)
  with assms(4) show ?thesis by (simp add: handler_ok_def)
qed

text \<open>
  C26. The index is built at most once: a step changes the cache only from \<open>Unbuilt\<close>,
  to the index of the content store as it is at that step; a built index is never
  replaced or partly exposed.
\<close>
theorem cache_built_once:
  assumes "site_step s s'" and "site_cache s' \<noteq> site_cache s"
  shows "site_cache s = Unbuilt \<and> (\<exists>raws. site_store s = Some raws \<and> site_cache s' = Ready (fst (build_index raws)))"
  using site_step_cache [OF assms(1)] assms(2) by blast


theorem site_responses_refine_witness:
  "Rendered (HomePg (home_render [] [])) = serve_page empty_ix HomeReq"
proof -
  let ?h = "\<lparr>h_req = HomeReq, h_answers = [Posts [], Tags []], h_result = Some (Rendered (HomePg (home_render [] [])))\<rparr>"
  have "Rendered (HomePg (home_render [] [])) = Fatal ContentLoadError \<or>
        Rendered (HomePg (home_render [] [])) = serve_page empty_ix (h_req ?h)"
    by (rule site_responses_refine [OF site_home_run_empty]) simp_all
  then show ?thesis by simp
qed

theorem cache_built_once_witness:
  "\<exists>raws. Some [] = Some raws \<and> Ready empty_ix = Ready (fst (build_index raws))"
  using cache_built_once [OF site_first_query_empty] by simp


end
