(* ===== verification/Navigation.thy ===== *)
theory Navigation
  imports Site
begin

text \<open>
  Following a link. The pages render links as root-relative hrefs
  (\<open>/posts/${slug}\<close>, \<open>/tags/${tag}\<close>, \<open>/\<close>). The browser resolves such an
  href as the URL standard (WHATWG) says: the path ends at the first \<open>?\<close> or \<open>#\<close>,
  \<open>\\<close> counts as \<open>/\<close>, the segments \<open>.\<close> and \<open>..\<close> are resolved, and every
  segment is percent-encoded with the path percent-encode set. The Next.js router of the
  app directory maps the segments to a page: no segment to \<open>Home\<close>
  (\<open>src/app/page.tsx\<close>), \<open>posts/[slug]\<close> and \<open>tags/[tag]\<close> to the two dynamic
  pages, which receive the segment as it is in the URL, still percent-encoded; a trailing
  slash is redirected away; anything else is the 404 page.
\<close>

section \<open>The browser\<close>

text \<open>
  The path percent-encode set: C0 controls, space, bytes above \<open>0x7E\<close> (so every
  byte of a non-ASCII character), and \<open>" # < > ? ^ ` { }\<close>.
\<close>

definition in_path_encode_set :: "char \<Rightarrow> bool" where
  "in_path_encode_set c =
     (let n = of_char c :: nat in n < 33 \<or> 126 < n \<or> n \<in> {34, 35, 60, 62, 63, 94, 96, 123, 125})"

definition path_encode_char :: "char \<Rightarrow> string" where
  "path_encode_char c =
     (if in_path_encode_set c then [CHR ''%'', hex_char (of_char c div 16), hex_char (of_char c mod 16)]
      else [c])"

definition path_encode :: "string \<Rightarrow> string" where
  "path_encode s = concat (map path_encode_char s)"

definition is_path_sep :: "char \<Rightarrow> bool" where
  "is_path_sep c \<longleftrightarrow> c = CHR ''/'' \<or> c = CHR 0x5C"

fun split_path :: "string \<Rightarrow> string \<Rightarrow> string list" where
  "split_path cur [] = [rev cur]"
| "split_path cur (c # cs) = (if is_path_sep c then rev cur # split_path [] cs else split_path (c # cur) cs)"

text \<open>
  Dot segments: \<open>.\<close> is dropped and \<open>..\<close> removes the previous segment; either one as
  the last segment leaves an empty last segment (\<open>/posts/..\<close> is \<open>/\<close>).
\<close>

fun resolve_dots :: "string list \<Rightarrow> string list \<Rightarrow> string list" where
  "resolve_dots acc [] = rev acc"
| "resolve_dots acc (seg # segs) =
     (if seg = ''.'' then resolve_dots acc segs @ (if segs = [] then [[]] else [])
      else if seg = ''..'' then resolve_dots (drop 1 acc) segs @ (if segs = [] then [[]] else [])
      else resolve_dots (seg # acc) segs)"

text \<open>The path segments the browser requests for a root-relative href.\<close>

definition href_segments :: "url \<Rightarrow> string list option" where
  "href_segments h =
     (case h of
        c # rest \<Rightarrow>
          if c = CHR ''/'' then
            Some (map path_encode
                   (resolve_dots [] (split_path [] (takeWhile (\<lambda>c. c \<noteq> CHR ''?'' \<and> c \<noteq> CHR ''#'') rest))))
          else None
      | [] \<Rightarrow> None)"

section \<open>The router\<close>

fun route_segments :: "string list \<Rightarrow> request option" where
  "route_segments [[]] = Some HomeReq"
| "route_segments [p, seg] =
     (if seg = [] then None
      else if p = ''posts'' then Some (PostReq seg)
      else if p = ''tags'' then Some (TagReq seg) else None)"
| "route_segments [p, seg, []] = route_segments [p, seg]"
| "route_segments segs = None"

definition navigate :: "url \<Rightarrow> request option" where
  "navigate h = (case href_segments h of None \<Rightarrow> None | Some segs \<Rightarrow> route_segments segs)"

text \<open>What the server responds when the browser follows a link, the index being built.\<close>

definition follow_link :: "post_index \<Rightarrow> url \<Rightarrow> response" where
  "follow_link ix h = (case navigate h of None \<Rightarrow> Failed NotFound | Some r \<Rightarrow> serve_page ix r)"

text \<open>A name that, placed in a path, stays one segment and is not a dot segment.\<close>

definition url_safe_segment :: "string \<Rightarrow> bool" where
  "url_safe_segment s \<longleftrightarrow>
     s \<noteq> [] \<and> s \<noteq> ''.'' \<and> s \<noteq> ''..'' \<and>
     (\<forall>c \<in> set s. \<not> is_path_sep c \<and> c \<noteq> CHR ''?'' \<and> c \<noteq> CHR ''#'' \<and> c \<noteq> CHR ''%'')"

section \<open>Lemmas\<close>

lemma decode_path_encode_char:
  assumes "c \<noteq> CHR ''%''"
  shows "decode_uri_component (path_encode_char c @ rest) = map_option ((#) c) (decode_uri_component rest)"
proof (cases "in_path_encode_set c")
  case True
  then show ?thesis by (simp add: path_encode_char_def decode_percent_escape del: decode_uri_component.simps)
next
  case False
  with assms show ?thesis by (simp add: path_encode_char_def)
qed

lemma decode_path_encode: "CHR ''%'' \<notin> set s \<Longrightarrow> decode_uri_component (path_encode s) = Some s"
  by (induction s) (auto simp: path_encode_def decode_path_encode_char)

lemma path_encode_posts: "path_encode ''posts'' = ''posts''" and path_encode_tags: "path_encode ''tags'' = ''tags''"
  by (simp_all add: path_encode_def path_encode_char_def in_path_encode_set_def)

lemma path_encode_Nil_iff: "path_encode s = [] \<longleftrightarrow> s = []"
  by (cases s) (auto simp: path_encode_def path_encode_char_def)

lemma split_path_plain:
  "\<forall>c \<in> set xs. \<not> is_path_sep c \<Longrightarrow> split_path cur xs = [rev cur @ xs]"
  by (induction xs arbitrary: cur) auto

lemma split_path_sep:
  "\<forall>c \<in> set xs. \<not> is_path_sep c \<Longrightarrow> is_path_sep d \<Longrightarrow>
   split_path cur (xs @ d # ys) = (rev cur @ xs) # split_path [] ys"
  by (induction xs arbitrary: cur) auto

lemma navigate_named:
  assumes "url_safe_segment s" and "p \<in> {''posts'', ''tags''}"
  shows "navigate (CHR ''/'' # p @ CHR ''/'' # s) =
           Some (if p = ''posts'' then PostReq (path_encode s) else TagReq (path_encode s))"
proof -
  have s: "\<forall>c \<in> set s. \<not> is_path_sep c" "\<forall>c \<in> set s. c \<noteq> CHR ''?'' \<and> c \<noteq> CHR ''#''"
    "s \<noteq> []" "s \<noteq> ''.''" "s \<noteq> ''..''"
    using assms(1) by (auto simp: url_safe_segment_def)
  have tw: "takeWhile (\<lambda>c. c \<noteq> CHR ''?'' \<and> c \<noteq> CHR ''#'') (p @ CHR ''/'' # s) = p @ CHR ''/'' # s"
  proof -
    have "\<forall>c \<in> set p. c \<noteq> CHR ''?'' \<and> c \<noteq> CHR ''#''" using assms(2) by auto
    with s(2) show ?thesis by (simp add: takeWhile_eq_all_conv)
  qed
  have p: "\<forall>c \<in> set p. \<not> is_path_sep c" using assms(2) by (auto simp: is_path_sep_def)
  have sp: "split_path [] (p @ CHR ''/'' # s) = [p, s]"
    using split_path_sep [OF p, of "CHR ''/''" "[]" s] split_path_plain [OF s(1), of "[]"]
    by (simp add: is_path_sep_def)
  have rd: "resolve_dots [] [p, s] = [p, s]" using assms(2) s(4,5) by auto
  have "href_segments (CHR ''/'' # p @ CHR ''/'' # s) = Some [path_encode p, path_encode s]"
    by (simp only: href_segments_def list.case simp_thms(6) if_True tw sp rd list.map)
  moreover have "path_encode s \<noteq> []" using s(3) by (simp add: path_encode_Nil_iff)
  ultimately show ?thesis using assms(2)
    by (auto simp: navigate_def path_encode_posts path_encode_tags)
qed

lemma post_href_path: "post_href s = CHR ''/'' # ''posts'' @ CHR ''/'' # s"
  and tag_href_path: "tag_href s = CHR ''/'' # ''tags'' @ CHR ''/'' # s"
  by (simp_all add: post_href_def tag_href_def)

lemma url_safe_no_percent: "url_safe_segment s \<Longrightarrow> CHR ''%'' \<notin> set s"
  by (auto simp: url_safe_segment_def)

lemma follow_link_post:
  assumes "url_safe_segment s"
  shows "follow_link ix (post_href s) = of_page_result PostPg (post_render (getPostBySlug ix s))"
  using navigate_named [OF assms, of "''posts''"] decode_path_encode [OF url_safe_no_percent [OF assms]]
  by (simp add: follow_link_def post_href_path PostPage_def)

lemma follow_link_tag:
  assumes "url_safe_segment t"
  shows "follow_link ix (tag_href t) = of_page_result TagPg (TagPage ix (path_encode t))"
  using navigate_named [OF assms, of "''tags''"] by (simp add: follow_link_def tag_href_path)

lemma follow_link_home: "follow_link ix ''/'' = Rendered (HomePg (Home ix))"
  by (simp add: follow_link_def navigate_def href_segments_def path_encode_def)

text \<open>
  C18. Search, navigation and server composed: on the home page, every post with a
  URL-safe slug can be found and opened from the keyboard (Ctrl+K, its title, some
  ArrowDown presses, Enter), and the URL the widget navigates to is served as that
  post's page.
\<close>

theorem search_opens_served_page:
  assumes "p \<in> set (getAllPosts (fst (build_index raws)))" and "url_safe_segment (slug p)"
  shows "\<exists>k s' u. search_run (home_search (Home (fst (build_index raws)))) search_init
            ([WindowKey \<lparr>ev_key = ''k'', ev_meta = False, ev_ctrl = True\<rparr>, InputChange (title p)] @
             replicate k (InputKey (plain_key ''ArrowDown'')) @ [InputKey (plain_key ''Enter'')]) = Inr (s', [u]) \<and>
           follow_link (fst (build_index raws)) u = Rendered (PostPg (post_view_of p))"
proof -
  let ?ix = "fst (build_index raws)"
  have "to_search_post p \<in> set (home_search (Home ?ix))"
    using assms(1) by (simp add: Home_def home_render_def Let_def)
  from keyboard_opens_post [OF this] obtain k s' where
    r: "search_run (home_search (Home ?ix)) search_init
          ([WindowKey \<lparr>ev_key = ''k'', ev_meta = False, ev_ctrl = True\<rparr>, InputChange (title p)] @
           replicate k (InputKey (plain_key ''ArrowDown'')) @ [InputKey (plain_key ''Enter'')]) =
        Inr (s', [post_href (slug p)])"
    by (auto simp: to_search_post_def post_href_def)
  have "follow_link ?ix (post_href (slug p)) = Rendered (PostPg (post_view_of p))"
    using assms by (simp add: follow_link_post getPostBySlug_build_index_post post_render_def of_page_result_def)
  with r show ?thesis by blast
qed

text \<open>
  C17. Following the links the site renders reaches the pages they name: the link of
  every post whose slug is URL-safe serves that post's page, the link of every tag whose
  name is URL-safe and needs no percent-encoding serves its tag page, and \<open>/\<close> serves
  the home page. This runs the browser's URL resolution, the router and the server.
\<close>

theorem links_served:
  "(p \<in> set (getAllPosts (fst (build_index raws))) \<and> url_safe_segment (slug p) \<longrightarrow>
      follow_link (fst (build_index raws)) (post_href (slug p)) = Rendered (PostPg (post_view_of p))) \<and>
   (t \<in> set (getAllTags (fst (build_index raws))) \<and> url_safe_segment t \<and> path_encode t = t \<longrightarrow>
      (\<exists>tv. follow_link (fst (build_index raws)) (tag_href t) = Rendered (TagPg tv) \<and>
            TagPage (fst (build_index raws)) t = Inr tv)) \<and>
   follow_link (fst (build_index raws)) ''/'' = Rendered (HomePg (Home (fst (build_index raws))))"
proof (intro conjI impI)
  assume "p \<in> set (getAllPosts (fst (build_index raws))) \<and> url_safe_segment (slug p)"
  then show "follow_link (fst (build_index raws)) (post_href (slug p)) = Rendered (PostPg (post_view_of p))"
    by (simp add: follow_link_post getPostBySlug_build_index_post post_render_def of_page_result_def)
next
  assume t: "t \<in> set (getAllTags (fst (build_index raws))) \<and> url_safe_segment t \<and> path_encode t = t"
  then obtain tv where "TagPage (fst (build_index raws)) t = Inr tv"
    by (auto simp: build_index_index_of tag_page_index_of)
  with t show "\<exists>tv. follow_link (fst (build_index raws)) (tag_href t) = Rendered (TagPg tv) \<and>
            TagPage (fst (build_index raws)) t = Inr tv"
    by (simp add: follow_link_tag of_page_result_def)
qed (rule follow_link_home)

text \<open>
  C13. The tag page does not decode its parameter, so the link of a tag whose name the
  browser percent-encodes (a space, any non-ASCII character) is served as
  \<open>notFound()\<close>, unless some tag happens to be spelled as the encoded form.
\<close>

theorem tag_link_encoded_404:
  assumes "url_safe_segment t" and "path_encode t \<notin> set (getAllTags (index_of ps))"
  shows "follow_link (index_of ps) (tag_href t) = Failed NotFound"
  using assms by (simp add: follow_link_tag tag_page_index_of of_page_result_def)

theorem links_served_witness:
  "follow_link (fst (build_index scenario_raws)) ''/posts/a'' =
     Rendered (PostPg (post_view_of \<lparr>slug = ''a'', title = ''Go notes'', date = ''2024-01-01'', tags = [''go''],
       excerpt = ''hello world'', content = ''hello world'', readingTime = Some 1\<rparr>)) \<and>
   (\<exists>tv. follow_link (fst (build_index scenario_raws)) ''/tags/go'' = Rendered (TagPg tv) \<and>
         TagPage (fst (build_index scenario_raws)) ''go'' = Inr tv)"
proof -
  let ?p = "\<lparr>slug = ''a'', title = ''Go notes'', date = ''2024-01-01'', tags = [''go''],
       excerpt = ''hello world'', content = ''hello world'', readingTime = Some 1\<rparr>"
  have p: "?p \<in> set (getAllPosts (fst (build_index scenario_raws)))" by (simp add: pages_eval posts_eval Let_def)
  have t: "''go'' \<in> set (getAllTags (fst (build_index scenario_raws)))" by (simp add: pages_eval posts_eval Let_def)
  have s: "url_safe_segment ''a''" "url_safe_segment ''go''" by (simp_all add: url_safe_segment_def is_path_sep_def)
  have e: "path_encode ''go'' = ''go''" by (simp add: path_encode_def path_encode_char_def in_path_encode_set_def)
  from links_served [of ?p scenario_raws "''go''"] p t s e show ?thesis
    by (simp add: post_href_def tag_href_def)
qed

theorem tag_link_encoded_404_witness:
  "follow_link (index_of [\<lparr>slug = ''a'', title = ''A'', date = ''2024-01-01'', tags = [''a b''], excerpt = [],
     content = [], readingTime = None\<rparr>]) ''/tags/a b'' = Failed NotFound"
proof -
  let ?ps = "[\<lparr>slug = ''a'', title = ''A'', date = ''2024-01-01'', tags = [''a b''], excerpt = [],
     content = [], readingTime = None\<rparr>]"
  have s: "url_safe_segment ''a b''" by (simp add: url_safe_segment_def is_path_sep_def)
  have "path_encode ''a b'' = ''a%20b''" by code_simp
  then have n: "path_encode ''a b'' \<notin> set (getAllTags (index_of ?ps))" by (simp add: index_of_simps)
  from tag_link_encoded_404 [OF s n] show ?thesis by (simp add: tag_href_def)
qed

theorem search_opens_served_page_witness:
  "\<exists>k s' u. search_run (home_search (Home (fst (build_index scenario_raws)))) search_init
      ([WindowKey \<lparr>ev_key = ''k'', ev_meta = False, ev_ctrl = True\<rparr>, InputChange ''Go notes''] @
       replicate k (InputKey (plain_key ''ArrowDown'')) @ [InputKey (plain_key ''Enter'')]) = Inr (s', [u]) \<and>
     follow_link (fst (build_index scenario_raws)) u =
       Rendered (PostPg (post_view_of \<lparr>slug = ''a'', title = ''Go notes'', date = ''2024-01-01'', tags = [''go''],
         excerpt = ''hello world'', content = ''hello world'', readingTime = Some 1\<rparr>))"
proof -
  let ?p = "\<lparr>slug = ''a'', title = ''Go notes'', date = ''2024-01-01'', tags = [''go''],
       excerpt = ''hello world'', content = ''hello world'', readingTime = Some 1\<rparr>"
  have p: "?p \<in> set (getAllPosts (fst (build_index scenario_raws)))" by (simp add: pages_eval posts_eval Let_def)
  have s: "url_safe_segment ''a''" by (simp add: url_safe_segment_def is_path_sep_def)
  from search_opens_served_page [OF p] s show ?thesis by simp
qed

end
