(* ===== verification/Theme.thy ===== *)
theory Theme
  imports Prelude
begin

text \<open>
  The theme switch: \<open>ThemeToggle\<close> (\<open>src/components/theme-toggle.tsx\<close>) and the
  \<open>ThemeProvider\<close> configuration of \<open>RootLayout\<close> (\<open>src/app/layout.tsx\<close>). The
  provider (the \<open>next-themes\<close> library) is reduced to what the toggle reads: the current
  theme, which is the value stored in the browser when there is one and the layout's
  \<open>defaultTheme\<close> otherwise, and \<open>setTheme\<close>, which replaces it. The toggle renders
  a bare placeholder until its mount effect has run, so that the server render and the
  first client render agree whatever theme the browser has stored; then three buttons,
  the one of the current theme highlighted.
\<close>

record theme_provider =
  tp_attribute :: string
  tp_default_theme :: string
  tp_enable_system :: bool
  tp_disable_transition :: bool

definition layout_theme_provider :: theme_provider where
  "layout_theme_provider =
     \<lparr>tp_attribute = ''class'', tp_default_theme = ''system'', tp_enable_system = True,
      tp_disable_transition = True\<rparr>"

text \<open>
  \<open>RootLayout\<close> wraps every page: the \<open>html\<close> element with its language and
  \<open>suppressHydrationWarning\<close> (the provider writes the theme class on it before
  hydration), and the body holding the provider around the page.
\<close>

record 'a root_layout =
  html_lang :: string
  suppress_hydration_warning :: bool
  layout_provider :: theme_provider
  layout_children :: 'a

definition RootLayout :: "'a \<Rightarrow> 'a root_layout" where
  "RootLayout children =
     \<lparr>html_lang = ''zh-CN'', suppress_hydration_warning = True,
      layout_provider = layout_theme_provider, layout_children = children\<rparr>"

record toggle_state =
  mounted :: bool
  theme :: string

text \<open>First render: \<open>mounted\<close> is false; the theme is the stored one or the default.\<close>

definition toggle_init :: "theme_provider \<Rightarrow> string option \<Rightarrow> toggle_state" where
  "toggle_init cfg stored =
     \<lparr>mounted = False, theme = (case stored of None \<Rightarrow> tp_default_theme cfg | Some t \<Rightarrow> t)\<rparr>"

datatype toggle_event = Mounted | ClickLight | ClickDark | ClickSystem

text \<open>The buttons exist only after mounting; the placeholder has no handler.\<close>

fun toggle_step :: "toggle_state \<Rightarrow> toggle_event \<Rightarrow> toggle_state" where
  "toggle_step s Mounted = s\<lparr>mounted := True\<rparr>"
| "toggle_step s ClickLight = (if mounted s then s\<lparr>theme := ''light''\<rparr> else s)"
| "toggle_step s ClickDark = (if mounted s then s\<lparr>theme := ''dark''\<rparr> else s)"
| "toggle_step s ClickSystem = (if mounted s then s\<lparr>theme := ''system''\<rparr> else s)"

datatype toggle_view = Placeholder | ThemeButtons "(string \<times> bool) list"

definition toggle_view_of :: "toggle_state \<Rightarrow> toggle_view" where
  "toggle_view_of s =
     (if \<not> mounted s then Placeholder
      else ThemeButtons [(''light'', theme s = ''light''), (''dark'', theme s = ''dark''),
                         (''system'', theme s = ''system'')])"

inductive toggle_reachable :: "theme_provider \<Rightarrow> string option \<Rightarrow> toggle_state \<Rightarrow> bool"
  for cfg stored where
  init: "toggle_reachable cfg stored (toggle_init cfg stored)"
| step: "toggle_reachable cfg stored s \<Longrightarrow> toggle_reachable cfg stored (toggle_step s e)"

definition known_theme :: "string \<Rightarrow> bool" where
  "known_theme t = (t = ''light'' \<or> t = ''dark'' \<or> t = ''system'')"

section \<open>Lemmas\<close>

lemma toggle_step_known: "known_theme (theme s) \<Longrightarrow> known_theme (theme (toggle_step s e))"
  by (cases e) (auto simp: known_theme_def)

lemma toggle_reachable_known:
  assumes "toggle_reachable cfg stored s"
    and "known_theme (tp_default_theme cfg)" and "case stored of None \<Rightarrow> True | Some t \<Rightarrow> known_theme t"
  shows "known_theme (theme s)"
  using assms
proof (induction rule: toggle_reachable.induct)
  case init
  then show ?case by (auto simp: toggle_init_def split: option.splits)
next
  case (step s e)
  then show ?case by (simp add: toggle_step_known)
qed

lemma active_buttons_count:
  "toggle_view_of s = ThemeButtons bs \<Longrightarrow> length (filter snd bs) = (if known_theme (theme s) then 1 else 0)"
  by (auto simp: toggle_view_of_def known_theme_def split: if_splits)

text \<open>
  C14. With the layout's provider and a stored theme that is one of the three (or none),
  the mounted toggle highlights exactly one button in every reachable state.
\<close>

theorem toggle_one_active:
  assumes "toggle_reachable layout_theme_provider stored s"
    and "case stored of None \<Rightarrow> True | Some t \<Rightarrow> known_theme t"
    and "toggle_view_of s = ThemeButtons bs"
  shows "length (filter snd bs) = 1"
proof -
  have "known_theme (tp_default_theme layout_theme_provider)"
    by (simp add: layout_theme_provider_def known_theme_def)
  with assms(1,2) have "known_theme (theme s)" by (blast intro: toggle_reachable_known)
  with active_buttons_count [OF assms(3)] show ?thesis by simp
qed

theorem toggle_one_active_witness:
  "length (filter snd [(''light'', False), (''dark'', True), (''system'', False)]) = 1 \<and>
   toggle_view_of (toggle_step (toggle_step (toggle_init layout_theme_provider None) Mounted) ClickDark) =
     ThemeButtons [(''light'', False), (''dark'', True), (''system'', False)]"
proof -
  let ?s = "toggle_step (toggle_step (toggle_init layout_theme_provider None) Mounted) ClickDark"
  have r: "toggle_reachable layout_theme_provider None ?s"
    by (intro toggle_reachable.step toggle_reachable.init)
  have v: "toggle_view_of ?s = ThemeButtons [(''light'', False), (''dark'', True), (''system'', False)]"
    by (simp add: toggle_view_of_def toggle_init_def)
  from toggle_one_active [OF r _ v] v show ?thesis by simp
qed

text \<open>
  A click on a theme button of the mounted toggle selects that theme and moves the
  highlight to it.
\<close>

theorem toggle_click_selects:
  "mounted s \<Longrightarrow>
   toggle_view_of (toggle_step s ClickLight) = ThemeButtons [(''light'', True), (''dark'', False), (''system'', False)] \<and>
   toggle_view_of (toggle_step s ClickDark) = ThemeButtons [(''light'', False), (''dark'', True), (''system'', False)] \<and>
   toggle_view_of (toggle_step s ClickSystem) = ThemeButtons [(''light'', False), (''dark'', False), (''system'', True)]"
  by (simp add: toggle_view_of_def)

theorem toggle_click_selects_witness:
  "toggle_view_of (toggle_step (toggle_step (toggle_init layout_theme_provider None) Mounted) ClickLight) =
     ThemeButtons [(''light'', True), (''dark'', False), (''system'', False)]"
proof -
  have "mounted (toggle_step (toggle_init layout_theme_provider None) Mounted)" by simp
  from toggle_click_selects [OF this] show ?thesis by blast
qed

end
