(* ===== verification/Spec2Isabelle.thy ===== *)
theory Spec2Isabelle
  imports Navigation Theme
begin

text \<open>
  \<^bold>\<open>A verification development for the blog of peter2317238492/myblogs.\<close>

  \<^bold>\<open>The program.\<close> A Next.js site. Its sources under \<open>src/\<close> are the pages of the
  app directory and two client components; they read posts through the query interface
  of \<open>@/lib/posts\<close> (\<open>getAllPosts\<close>, \<open>getPostBySlug\<close>, \<open>getPostsByTag\<close>,
  \<open>getAllTags\<close>, \<open>getAllSlugs\<close>, \<open>markdownToHtml\<close>), a module that is not among the
  sources and is modelled from the specification. Data flows from the content store
  through the index (built once) to the pages; the home page hands a snapshot of all
  posts to the search widget, which filters it in the browser and navigates to
  \<open>/posts/<slug>\<close>; the tag cloud and the post pages link to \<open>/tags/<tag>\<close>.

  \<^bold>\<open>The theories.\<close>
  \<^item> \<open>Prelude\<close>: the ECMAScript builtins the sources call, modelled once
    (\<open>toLowerCase\<close> on ASCII, \<open>includes\<close>, numbers with \<open>NaN\<close> and the truncating
    \<open>%\<close>, array reads that give \<open>undefined\<close>, \<open>decodeURIComponent\<close> with its
    \<open>URIError\<close>, \<open>encodeURIComponent\<close>), the collection \<open>js_simps\<close> and the round
    trip \<open>decode_encode_uri_component\<close>.
  \<^item> \<open>Search\<close>: \<open>src/components/search.tsx\<close>. Record \<open>search_state\<close> holds the three
    \<open>useState\<close> variables; \<open>post_matches\<close>/\<open>filtered_posts\<close> are the filter,
    \<open>global_keydown\<close> the window listener, \<open>input_change\<close> the input's
    \<open>onChange\<close> with the effect on \<open>[query]\<close>, \<open>input_keydown\<close> the input's
    \<open>handleKeyDown\<close>; \<open>search_step\<close> wires them to the DOM events
    (\<open>search_event\<close>), \<open>search_run\<close> runs event sequences, \<open>search_reachable\<close> is
    the set of reachable states, \<open>search_view\<close> the rendered dialog, \<open>focus_input\<close> the
    effect on \<open>[isOpen]\<close> that focuses the input. Claims C1 to C7, C16, C19, C23 and C28.
  \<^item> \<open>Posts\<close>: \<open>@/lib/posts\<close> from the specification (spec-modelled): records
    \<open>raw_post\<close> and \<open>post\<close>, validation \<open>to_post\<close> (tags as a set in first-seen order, \<open>tag_set\<close>; slug, title, ISO date with
    month lengths and leap years), reading time (words / 200, rounded up, absent for no
    words), excerpt (first paragraph, markdown syntax removed, cut to 150 bytes at a
    UTF-8 boundary), the load loop \<open>load_posts\<close> (skip-and-warn, first-seen-wins), the
    ordering \<open>post_before\<close> with insertion sort \<open>sort_posts\<close>, the index
    \<open>index_of\<close>/\<open>build_index\<close>, the five queries, and the build-once cache
    (\<open>cache\<close>, \<open>run_query\<close>, \<open>run_queries\<close>). Its lemmas: slugs distinct, order
    sorted and unique, slug lookup and first-seen-wins, tag map equals the filter of all
    posts, tag list sorted and complete, reading time positive and monotone in the word
    count (doubling the text doubles the count), excerpt bounded and cut at a character
    boundary, the cache answers every call from the one index built at the first call.
  \<^item> \<open>Render\<close>: \<open>markdownToHtml\<close> from the specification: paragraphs and HTML
    escaping (escaped text holds no \<open><\<close> or \<open>>\<close>); no claim rests on it.
  \<^item> \<open>Pages\<close>: \<open>src/app/page.tsx\<close> (\<open>Home\<close>), \<open>src/app/posts/[slug]/page.tsx\<close>
    (\<open>PostPage\<close>, \<open>post_static_params\<close>), \<open>src/app/tags/[tag]/page.tsx\<close>
    (\<open>TagPage\<close>, \<open>tag_static_params\<close>): each page is a function from the index and
    the route parameter to \<open>page_error + view\<close>, \<open>notFound()\<close> being
    \<open>Inl NotFound\<close> and a failing \<open>decodeURIComponent\<close> \<open>Inl URIError\<close>. The
    React \<open>key\<close> props are fields of the rendered records (\<open>card_key\<close>,
    \<open>item_key\<close>, \<open>chip_key\<close>). Claims C8 to C12, C15, C20 to C22, C24, C29 and C30,
    which combine the pages with the pipeline.
  \<^item> \<open>Site\<close>: the three pages as handlers running concurrently in one server process
    over the shared build-once index. Each page is split as the source is: its query
    calls (\<open>home_queries\<close>, \<open>post_queries\<close>, \<open>tag_queries\<close>, lines 8-9 and 18-20 of
    the page files) and its render over their results (\<open>home_render\<close>, \<open>post_render\<close>,
    \<open>tag_render\<close> in \<open>Pages\<close>); \<open>Home\<close>, \<open>PostPage\<close> and \<open>TagPage\<close> are their
    composition on one index. \<open>site_step\<close> is the step relation of the server state
    \<open>server\<close> (cache, content store, in-flight handlers): a request arrives, a handler makes
    its next query through \<open>run_query\<close> (or fails with \<open>ContentLoadError\<close>), a handler
    renders, or the content store is edited. The invariant \<open>site_inv\<close> (every answer a
    handler holds is the answer of the one built index) is proved by rule induction;
    \<open>handler_measure\<close> is the variant of a handler (queries left plus the render).
    Claims C25 to C27.
  \<^item> \<open>Theme\<close>: \<open>src/components/theme-toggle.tsx\<close> and the \<open>ThemeProvider\<close>
    configuration of \<open>src/app/layout.tsx\<close>: \<open>toggle_state\<close>, \<open>toggle_step\<close>,
    \<open>toggle_view_of\<close>, \<open>toggle_reachable\<close>; \<open>RootLayout\<close> wraps every page in the
    provider \<open>layout_theme_provider\<close>. Claim C14.
  \<^item> \<open>Navigation\<close>: following a link. \<open>href_segments\<close> is the browser's resolution of
    a root-relative href by the URL standard (the path ends at \<open>?\<close> or \<open>#\<close>, \<open>\\<close>
    is \<open>/\<close>, dot segments are resolved, each segment is percent-encoded with the path
    percent-encode set); \<open>route_segments\<close> is the route surface of the app directory
    (\<open>/\<close>, \<open>/posts/[slug]\<close>, \<open>/tags/[tag]\<close>, trailing slash redirected);
    \<open>follow_link\<close> runs them and \<open>serve_page\<close>. Claims C13, C17 and C18.

  \<^bold>\<open>What the claims show.\<close> Search: the cursor is always a valid index when there
  are results (C1), so no key press throws (C2); the filter keeps the input order and exactly the matching posts (C3);
  query changes reset the cursor (C4), arrows wrap (C5), exactly one row is highlighted
  (C6), with no results the cursor becomes \<open>NaN\<close> (C7); Enter opens the highlighted row
  (C16), every navigation goes to a post of the snapshot (C19), every post can be opened
  from the keyboard alone (C23), and the input is focused exactly when the dialog opens
  (C28). Pages: the post page shows the first valid record for a slug (C8); the tag page
  lists exactly the posts of a known tag (C9); the home page lists the posts sorted and
  without duplicate slugs (C10); no stray \<open>0\<close> reading time (C11); React keys are unique
  in every rendered list (C15); searching a tag finds its posts (C20); every home card is
  the card of a post and its excerpt is bounded and cut at a character boundary of that
  post's first paragraph (C21); a tag page lists one chip per tag, highlights exactly the
  chip of its own tag, and each chip links to its own tag (C22); search results keep the
  newest-first order (C24); the snapshot sent to the client is well typed (C29); the
  static post routes render exactly the pages of all posts (C30). Theme: exactly one
  button highlighted in every reachable state (C14). Links: following the href of a post or tag with
  a URL-safe name serves its page, and \<open>/\<close> the home page (C17); a post found and opened
  from the keyboard in the home page's search is served as that post's page (C18).
  Server: every response of the concurrent handlers is the page of the one built index
  (C25), the index is built at most once (C26), and under every interleaving of handlers,
  arrivals and store edits each handler responds after at most three of its own steps and
  can always take its next one (C27). Defects: the empty-state link \<open>/posts/new\<close> is a
  404 (C12), and the link of a tag the browser percent-encodes is a 404 because the tag
  page does not decode its parameter (C13).

  \<^bold>\<open>Assumptions and bounds.\<close> No loop needs fuel: every recursion is structural
  (\<open>fun\<close> over lists or the cut position). The server model makes every query call an
  atomic step and lets other handlers run between any two of them; the event loop of
  Node switches handlers only at \<open>await\<close>, so the model's interleavings include the real
  ones. The bound three of C27 is the longest query program (two calls) plus the render. Strings are byte lists; case mapping is
  ASCII; \<open>decodeURIComponent\<close> does not validate UTF-8 of escaped bytes. The router passes a
  dynamic segment as it is in the URL, percent-encoded, as the post page's own call of
  \<open>decodeURIComponent\<close> presumes; C8 and C30 state the pages at parameters
  encoded by \<open>encodeURIComponent\<close>, C13 and C17 at the segment the browser produces. The search cursor's numbers are small
  integers, exact in doubles.

  \<^bold>\<open>Not modelled.\<close> Styling, icons and markup; \<open>formatDate\<close>; \<open>preventDefault\<close>; the \<open>next-themes\<close> internals beyond the current theme;
  the \<open>metadata\<close> export of the layout (two strings React puts into the document head); markdown syntax beyond paragraphs and escaping: \<open>markdownToHtml\<close> lives in
  \<open>@/lib/posts\<close>, which is not in the repository, and the specification fixes only its
  contract (pure, deterministic, safe to embed); the paragraph-and-escape model is a
  stand-in and no claim is stated about its output; of the browser and the Next.js router (runtime, not
  repository code) only what a link of the site needs: no query strings or fragments
  beyond cutting them off, no percent-encoded dot segments (\<open>%2e\<close>), no redirect but
  the trailing slash, no static files or custom not-found page; the file-system side of the content store (the store is a list of raw
  records, or \<open>None\<close> when unreadable).
\<close>

end
